theory Spec2Isabelle
  imports Main "HOL-Library.Word" "HOL-Library.Log_Nat"
begin

section \<open>Data model\<close>

text \<open>
  A pixel buffer is the NumPy array \<^verbatim>\<open>np.array(image)\<close> of shape (height, width, 3) with
  unsigned 8-bit samples: a list of rows, each row a list of pixels, each pixel the
  triple of its red, green and blue sample.
\<close>

type_synonym uint8 = "8 word"
type_synonym pixel = "uint8 \<times> uint8 \<times> uint8"
type_synonym image = "pixel list list"

definition red :: "pixel \<Rightarrow> uint8" where
  "red p = fst p"

definition green :: "pixel \<Rightarrow> uint8" where
  "green p = fst (snd p)"

definition blue :: "pixel \<Rightarrow> uint8" where
  "blue p = snd (snd p)"

definition samples :: "image \<Rightarrow> uint8 list" where
  "samples img = concat (map (\<lambda>p. [red p, green p, blue p]) (concat img))"

text \<open>
  The exceptions a stage could raise. The error kinds are the ones the specification
  names; \<open>OtherException\<close> stands for whatever a collaborator (decoder, encoder) raises.
\<close>

datatype exn = InvalidInputError | DegenerateChannelError | OtherException string

section \<open>float64 arithmetic\<close>

text \<open>
  NumPy computes the means, the gains and the scaled samples in IEEE 754 binary64.
  A value is a finite rational, an infinity or NaN; every operation on finite values
  rounds its exact result to the nearest value with a 53-bit significand, ties to even
  (\<open>rnd64\<close>). All magnitudes of this program lie far inside the normal range, so
  overflow and subnormal numbers are left out, and the sign of zero is not tracked
  (no operand of this program is negative).
\<close>

datatype float64 = Fin rat | PInf | NInf | NaN

definition round_half_even :: "rat \<Rightarrow> int" where
  "round_half_even m =
     (let f = \<lfloor>m\<rfloor>; d = m - of_int f
      in if d < 1 / 2 then f else if 1 / 2 < d then f + 1 else if even f then f else f + 1)"

definition exponent :: "rat \<Rightarrow> int" where
  \<comment> \<open>for \<open>0 < x\<close>: the \<open>e\<close> with \<open>2 powi e \<le> x < 2 powi (e + 1)\<close>\<close>
  "exponent x =
     (let d = bitlen (fst (quotient_of x)) - bitlen (snd (quotient_of x))
      in if 2 powi d \<le> x then d else d - 1)"

definition rnd64 :: "rat \<Rightarrow> rat" where
  "rnd64 x =
     (if x = 0 then 0
      else let s = 2 powi (52 - exponent \<bar>x\<bar>)
           in of_int (round_half_even (x * s)) / s)"

fun fadd :: "float64 \<Rightarrow> float64 \<Rightarrow> float64" where
  "fadd (Fin x) (Fin y) = Fin (rnd64 (x + y))"
| "fadd NaN _ = NaN"
| "fadd _ NaN = NaN"
| "fadd PInf NInf = NaN"
| "fadd NInf PInf = NaN"
| "fadd PInf _ = PInf"
| "fadd _ PInf = PInf"
| "fadd NInf _ = NInf"
| "fadd _ NInf = NInf"

fun fmul :: "float64 \<Rightarrow> float64 \<Rightarrow> float64" where
  "fmul (Fin x) (Fin y) = Fin (rnd64 (x * y))"
| "fmul NaN _ = NaN"
| "fmul _ NaN = NaN"
| "fmul (Fin x) PInf = (if x = 0 then NaN else if 0 < x then PInf else NInf)"
| "fmul (Fin x) NInf = (if x = 0 then NaN else if 0 < x then NInf else PInf)"
| "fmul PInf (Fin y) = (if y = 0 then NaN else if 0 < y then PInf else NInf)"
| "fmul NInf (Fin y) = (if y = 0 then NaN else if 0 < y then NInf else PInf)"
| "fmul PInf PInf = PInf"
| "fmul NInf NInf = PInf"
| "fmul PInf NInf = NInf"
| "fmul NInf PInf = NInf"

text \<open>
  Division of NumPy float64 scalars and arrays: a zero divisor raises nothing (NumPy
  only issues a RuntimeWarning); \<open>0 / 0\<close> is NaN and \<open>x / 0\<close> an infinity.
\<close>

fun fdiv :: "float64 \<Rightarrow> float64 \<Rightarrow> float64" where
  "fdiv (Fin x) (Fin y) =
     (if y = 0 then (if x = 0 then NaN else if 0 < x then PInf else NInf)
      else Fin (rnd64 (x / y)))"
| "fdiv NaN _ = NaN"
| "fdiv _ NaN = NaN"
| "fdiv (Fin x) PInf = Fin 0"
| "fdiv (Fin x) NInf = Fin 0"
| "fdiv PInf (Fin y) = (if 0 \<le> y then PInf else NInf)"
| "fdiv NInf (Fin y) = (if 0 \<le> y then NInf else PInf)"
| "fdiv PInf _ = NaN"
| "fdiv NInf _ = NaN"

text \<open>\<^verbatim>\<open>np.clip(a, 0, 255)\<close>: NaN stays NaN.\<close>

fun clip :: "float64 \<Rightarrow> float64" where
  "clip (Fin x) = Fin (min 255 (max 0 x))"
| "clip PInf = Fin 255"
| "clip NInf = Fin 0"
| "clip NaN = NaN"

definition trunc :: "rat \<Rightarrow> int" where
  "trunc x = (if 0 \<le> x then \<lfloor>x\<rfloor> else \<lceil>x\<rceil>)"

text \<open>
  Storing a float64 into a uint8 array is a C cast: the fraction is cut off (towards
  zero). C leaves the cast of NaN and of the infinities undefined; NumPy on the usual
  platforms stores 0 (with a RuntimeWarning). No theorem below depends on that value.
\<close>

definition cast_undefined :: uint8 where
  "cast_undefined = 0"

fun to_uint8 :: "float64 \<Rightarrow> uint8" where
  "to_uint8 (Fin x) = of_int (trunc x)"
| "to_uint8 _ = cast_undefined"

definition of_uint8 :: "uint8 \<Rightarrow> float64" where
  "of_uint8 s = Fin (of_nat (unat s))"

text \<open>
  \<open>clamped v s\<close>: the sample \<open>s\<close> is the value \<open>v\<close> restricted to [0, 255], with its
  fraction cut off: 255 for every value from 255 up, 0 for every value down from 0,
  never a value wrapped modulo 256. NaN has no place in the range; what is stored for
  it is the cast's.
\<close>

definition clamped :: "float64 \<Rightarrow> uint8 \<Rightarrow> bool" where
  "clamped v s =
     (case v of
        Fin y \<Rightarrow> uint s = \<lfloor>min 255 (max 0 y)\<rfloor>
      | PInf \<Rightarrow> s = 255
      | NInf \<Rightarrow> s = 0
      | NaN \<Rightarrow> s = cast_undefined)"

text \<open>
  \<^verbatim>\<open>np.mean\<close> of uint8 samples accumulates in float64: the sum of the samples is an
  integer below \<open>2 ^ 53\<close> and so exact in any order; the division by the count rounds.
  Over an empty selection it is \<open>0 / 0\<close>, NaN.
\<close>

definition np_mean_uint8 :: "uint8 list \<Rightarrow> float64" where
  "np_mean_uint8 xs =
     fdiv (Fin (of_nat (sum_list (map unat xs)))) (Fin (of_nat (length xs)))"

section \<open>The colour balancer\<close>

text \<open>\<^verbatim>\<open>int(image_array.shape[0] * 0.05)\<close>: a float64 product, truncated.\<close>

definition border_height :: "nat \<Rightarrow> nat" where
  "border_height h = nat (trunc (rnd64 (of_nat h * rnd64 (1 / 20))))"

definition border_area :: "image \<Rightarrow> image" where
  "border_area img = take (border_height (length img)) img"

definition mean_red :: "image \<Rightarrow> float64" where
  "mean_red img = np_mean_uint8 (map red (concat (border_area img)))"

definition mean_green :: "image \<Rightarrow> float64" where
  "mean_green img = np_mean_uint8 (map green (concat (border_area img)))"

definition mean_blue :: "image \<Rightarrow> float64" where
  "mean_blue img = np_mean_uint8 (map blue (concat (border_area img)))"

definition mean_gray :: "image \<Rightarrow> float64" where
  "mean_gray img = fdiv (fadd (fadd (mean_red img) (mean_green img)) (mean_blue img)) (Fin 3)"

definition red_correction :: "image \<Rightarrow> float64" where
  "red_correction img = fdiv (mean_gray img) (mean_red img)"

definition green_correction :: "image \<Rightarrow> float64" where
  "green_correction img = fdiv (mean_gray img) (mean_green img)"

definition blue_correction :: "image \<Rightarrow> float64" where
  "blue_correction img = fdiv (mean_gray img) (mean_blue img)"

text \<open>One sample times a factor, clipped, stored as uint8.\<close>

definition scale_sample :: "float64 \<Rightarrow> uint8 \<Rightarrow> uint8" where
  "scale_sample c s = to_uint8 (clip (fmul (of_uint8 s) c))"

text \<open>The three assignments \<^verbatim>\<open>balanced_image[:, :, k] = np.clip(balanced_image[:, :, k] * c, 0, 255)\<close>.\<close>

definition scale_red :: "float64 \<Rightarrow> image \<Rightarrow> image" where
  "scale_red c img = map (map (\<lambda>p. (scale_sample c (red p), green p, blue p))) img"

definition scale_green :: "float64 \<Rightarrow> image \<Rightarrow> image" where
  "scale_green c img = map (map (\<lambda>p. (red p, scale_sample c (green p), blue p))) img"

definition scale_blue :: "float64 \<Rightarrow> image \<Rightarrow> image" where
  "scale_blue c img = map (map (\<lambda>p. (red p, green p, scale_sample c (blue p)))) img"

definition auto_balance_color :: "image \<Rightarrow> exn + image" where
  "auto_balance_color image_array =
     (let rc = red_correction image_array;
          gc = green_correction image_array;
          bc = blue_correction image_array;
          balanced_image = image_array;
          balanced_image = scale_red rc balanced_image;
          balanced_image = scale_green gc balanced_image;
          balanced_image = scale_blue bc balanced_image
      in Inr balanced_image)"

text \<open>
  The float64 arrays \<^verbatim>\<open>balanced_image[:, :, k] * correction\<close> as they are before
  \<^verbatim>\<open>np.clip\<close>, sample by sample in the order of \<open>samples\<close>.
\<close>

definition balance_unclipped :: "image \<Rightarrow> float64 list" where
  "balance_unclipped img =
     concat (map (\<lambda>p. [fmul (of_uint8 (red p)) (red_correction img),
                        fmul (of_uint8 (green p)) (green_correction img),
                        fmul (of_uint8 (blue p)) (blue_correction img)]) (concat img))"

section \<open>The exposure normaliser\<close>

text \<open>
  \<^verbatim>\<open>np.mean(image_array, axis=2)\<close> is the float64 mean of the three samples of each pixel.
  \<^verbatim>\<open>np.mean(gray)\<close> then adds float64 values that are no longer integers, so its result
  depends on the order in which NumPy's add-reduction associates the additions. That
  routine is library code: it is the parameter \<open>add_reduce\<close>. \<open>seq_add_reduce\<close> adds
  from left to right starting from 0, which is what NumPy does for fewer than 8 values.
\<close>

definition gray :: "image \<Rightarrow> float64 list" where
  "gray img = map (\<lambda>p. np_mean_uint8 [red p, green p, blue p]) (concat img)"

definition np_mean_float64 :: "(float64 list \<Rightarrow> float64) \<Rightarrow> float64 list \<Rightarrow> float64" where
  "np_mean_float64 add_reduce xs = fdiv (add_reduce xs) (Fin (of_nat (length xs)))"

definition seq_add_reduce :: "float64 list \<Rightarrow> float64" where
  "seq_add_reduce xs = foldl fadd (Fin 0) xs"

definition mean_brightness :: "(float64 list \<Rightarrow> float64) \<Rightarrow> image \<Rightarrow> float64" where
  "mean_brightness add_reduce img = np_mean_float64 add_reduce (gray img)"

definition target_brightness :: float64 where
  "target_brightness = Fin 128"

definition adjustment_factor :: "(float64 list \<Rightarrow> float64) \<Rightarrow> image \<Rightarrow> float64" where
  "adjustment_factor add_reduce img = fdiv target_brightness (mean_brightness add_reduce img)"

definition scale_all :: "float64 \<Rightarrow> image \<Rightarrow> image" where
  "scale_all c img =
     map (map (\<lambda>p. (scale_sample c (red p), scale_sample c (green p), scale_sample c (blue p)))) img"

definition auto_adjust_exposure :: "(float64 list \<Rightarrow> float64) \<Rightarrow> image \<Rightarrow> exn + image" where
  "auto_adjust_exposure add_reduce image_array =
     Inr (scale_all (adjustment_factor add_reduce image_array) image_array)"

text \<open>The float64 array \<^verbatim>\<open>image_array * adjustment_factor\<close> as it is before \<^verbatim>\<open>np.clip\<close>.\<close>

definition exposure_unclipped :: "(float64 list \<Rightarrow> float64) \<Rightarrow> image \<Rightarrow> float64 list" where
  "exposure_unclipped add_reduce img =
     map (\<lambda>s. fmul (of_uint8 s) (adjustment_factor add_reduce img)) (samples img)"

section \<open>The cosmetic enhancer\<close>

text \<open>
  Modelled from the spec: the three sub-steps that \<^verbatim>\<open>auto_enhance_image\<close> calls
  (\<^verbatim>\<open>ImageEnhance.Brightness\<close>, \<^verbatim>\<open>Contrast\<close> and \<^verbatim>\<open>Sharpness\<close> of the PIL library)
  are not part of src. By the specification (4.4) each sub-step takes one multiplier,
  its numeric formula is a detail of the library, and its output samples are clamped to
  [0, 255]. A sub-step is therefore a formula, a parameter that gives the value of
  every sample before clamping, followed by the clamp and the store as uint8.
\<close>

type_synonym formula = "rat \<Rightarrow> image \<Rightarrow> (float64 \<times> float64 \<times> float64) list list"

definition formula_values :: "formula \<Rightarrow> rat \<Rightarrow> image \<Rightarrow> float64 list" where
  "formula_values formula factor img =
     concat (map (\<lambda>(r, g, b). [r, g, b]) (concat (formula factor img)))"

definition enhance :: "formula \<Rightarrow> rat \<Rightarrow> image \<Rightarrow> image" where
  "enhance formula factor img =
     map (map (\<lambda>(r, g, b). (to_uint8 (clip r), to_uint8 (clip g), to_uint8 (clip b))))
       (formula factor img)"

text \<open>\<^verbatim>\<open>auto_enhance_image\<close>: brightness 1.2, then contrast 1.3, then sharpness 1.5.\<close>

definition auto_enhance_image :: "formula \<Rightarrow> formula \<Rightarrow> formula \<Rightarrow> image \<Rightarrow> image" where
  "auto_enhance_image brightness_formula contrast_formula sharpness_formula image_pil =
     (let image_enhanced = enhance brightness_formula (rnd64 (6 / 5)) image_pil;
          image_enhanced = enhance contrast_formula (rnd64 (13 / 10)) image_enhanced;
          image_enhanced = enhance sharpness_formula (rnd64 (3 / 2)) image_enhanced
      in image_enhanced)"

section \<open>The inverter\<close>

text \<open>\<^verbatim>\<open>inverted_image = 255 - image_array\<close>, in uint8 arithmetic.\<close>

definition inverted_image :: "image \<Rightarrow> image" where
  "inverted_image image_array = map (map (\<lambda>p. (255 - red p, 255 - green p, 255 - blue p))) image_array"

section \<open>The stages on a store of arrays\<close>

text \<open>
  NumPy arrays are mutable objects. To say what a stage does to the array it is handed,
  the arrays live in a store; an array's address is its index, and a new array is
  appended. The inverter and the exposure normaliser build their result with array
  expressions, which allocate; the balancer copies its input and assigns the three
  channel slices of the copy in place.
\<close>

type_synonym addr = nat
type_synonym store = "image list"

definition alloc :: "image \<Rightarrow> store \<Rightarrow> addr \<times> store" where
  "alloc a s = (length s, s @ [a])"

definition inverted_image_st :: "addr \<Rightarrow> store \<Rightarrow> addr \<times> store" where
  "inverted_image_st image_array s = alloc (inverted_image (s ! image_array)) s"

definition auto_balance_color_st :: "addr \<Rightarrow> store \<Rightarrow> exn + addr \<times> store" where
  "auto_balance_color_st image_array s =
     (let rc = red_correction (s ! image_array);
          gc = green_correction (s ! image_array);
          bc = blue_correction (s ! image_array);
          (balanced_image, s) = alloc (s ! image_array) s;
          s = s[balanced_image := scale_red rc (s ! balanced_image)];
          s = s[balanced_image := scale_green gc (s ! balanced_image)];
          s = s[balanced_image := scale_blue bc (s ! balanced_image)]
      in Inr (balanced_image, s))"

definition auto_adjust_exposure_st ::
  "(float64 list \<Rightarrow> float64) \<Rightarrow> addr \<Rightarrow> store \<Rightarrow> exn + addr \<times> store" where
  "auto_adjust_exposure_st add_reduce image_array s =
     Inr (alloc (scale_all (adjustment_factor add_reduce (s ! image_array)) (s ! image_array)) s)"

section \<open>Batch processing\<close>

text \<open>
  The loop of \<^verbatim>\<open>batch_process_images\<close> over the directory listing. Decoding a file
  (\<^verbatim>\<open>Image.open\<close>, \<^verbatim>\<open>np.array\<close>) and saving the result (\<^verbatim>\<open>enhanced_image.save\<close>) are
  collaborators: parameters that return the array, or raise. A decoded array that is
  not of shape (height, width, 3), on which the stages would raise an IndexError, is
  an error of the decoder parameter. A dialog is recorded as
  an event: the warning names the file and the exception; the closing information
  dialog has a fixed text ("batch processing finished: all images were processed and
  saved successfully").
\<close>

datatype dialog = Warning string exn | Information

record batch_state =
  dialogs :: "dialog list"
  saved :: "string list"

definition bind_exn :: "exn + 'a \<Rightarrow> ('a \<Rightarrow> exn + 'b) \<Rightarrow> exn + 'b" where
  "bind_exn r f = (case r of Inl e \<Rightarrow> Inl e | Inr a \<Rightarrow> f a)"

definition try_body ::
  "(float64 list \<Rightarrow> float64) \<Rightarrow> formula \<Rightarrow> formula \<Rightarrow> formula \<Rightarrow> (string \<Rightarrow> exn + image)
     \<Rightarrow> (string \<Rightarrow> image \<Rightarrow> exn + unit) \<Rightarrow> string \<Rightarrow> exn + unit" where
  "try_body add_reduce brightness_formula contrast_formula sharpness_formula open_image save
       file_name =
     bind_exn (open_image file_name) (\<lambda>image_array.
     bind_exn (auto_balance_color (inverted_image image_array)) (\<lambda>balanced_image.
     bind_exn (auto_adjust_exposure add_reduce balanced_image) (\<lambda>exposure_adjusted_image.
     save file_name (auto_enhance_image brightness_formula contrast_formula sharpness_formula
       exposure_adjusted_image))))"

fun batch_loop ::
  "(string \<Rightarrow> bool) \<Rightarrow> (string \<Rightarrow> exn + unit) \<Rightarrow> string list \<Rightarrow> batch_state \<Rightarrow> batch_state" where
  "batch_loop isfile body [] st = st"
| "batch_loop isfile body (file_name # rest) st =
     (if \<not> isfile file_name then batch_loop isfile body rest st
      else case body file_name of
             Inr _ \<Rightarrow> batch_loop isfile body rest (st\<lparr>saved := saved st @ [file_name]\<rparr>)
           | Inl e \<Rightarrow> batch_loop isfile body rest (st\<lparr>dialogs := dialogs st @ [Warning file_name e]\<rparr>))"

definition batch_process_images ::
  "(string \<Rightarrow> bool) \<Rightarrow> (string \<Rightarrow> exn + unit) \<Rightarrow> string list \<Rightarrow> batch_state" where
  "batch_process_images isfile body listing =
     (let st = batch_loop isfile body listing \<lparr>dialogs = [], saved = []\<rparr>
      in st\<lparr>dialogs := dialogs st @ [Information]\<rparr>)"

text \<open>What a summary would count.\<close>

definition succeeded :: "(string \<Rightarrow> bool) \<Rightarrow> (string \<Rightarrow> exn + unit) \<Rightarrow> string list \<Rightarrow> nat" where
  "succeeded isfile body listing = length (filter (\<lambda>f. isfile f \<and> \<not> isl (body f)) listing)"

definition failed :: "(string \<Rightarrow> bool) \<Rightarrow> (string \<Rightarrow> exn + unit) \<Rightarrow> string list \<Rightarrow> nat" where
  "failed isfile body listing = length (filter (\<lambda>f. isfile f \<and> isl (body f)) listing)"

section \<open>Measurements and example buffers\<close>

text \<open>The exact arithmetic mean of all samples of a buffer: its image-wide mean brightness.\<close>

definition brightness :: "image \<Rightarrow> rat" where
  "brightness img = of_nat (sum_list (map unat (samples img))) / of_nat (length (samples img))"

text \<open>The exact arithmetic mean of one channel over a region.\<close>

definition channel_mean :: "(pixel \<Rightarrow> uint8) \<Rightarrow> image \<Rightarrow> rat" where
  "channel_mean ch region =
     of_nat (sum_list (map (\<lambda>p. unat (ch p)) (concat region))) / of_nat (length (concat region))"

text \<open>
  A 20 x 1 buffer whose border pixel is (1, 4, 1): the gains are 2, 1/2 and 2, all exact
  in float64.
\<close>

definition cast_image :: image where
  "cast_image = [(1, 4, 1)] # replicate 19 [(0, 3, 0)]"

text \<open>
  A formula for examples of the enhancer: every sample times the multiplier, which
  leaves the range for bright samples.
\<close>

definition scaling_formula :: formula where
  "scaling_formula factor img =
     map (map (\<lambda>p. (Fin (of_nat (unat (red p)) * factor), Fin (of_nat (unat (green p)) * factor),
                       Fin (of_nat (unat (blue p)) * factor)))) img"

text \<open>A 1 x 4 buffer with one white pixel and three black ones.\<close>

definition spot_image :: image where
  "spot_image = [[(255, 255, 255), (0, 0, 0), (0, 0, 0), (0, 0, 0)]]"

text \<open>Example buffers: all black (20 x 1); too short for a border (19 x 1); a neutral
  border whose channel means are all 7/5 (20 x 5); a uniform gray (20 x 1).\<close>

definition black_image :: image where
  "black_image = replicate 20 [(0, 0, 0)]"

definition short_image :: image where
  "short_image = replicate 19 [(10, 20, 30)]"

definition neutral_image :: image where
  "neutral_image = [(1, 1, 1), (1, 1, 1), (1, 1, 1), (2, 2, 2), (2, 2, 2)] # replicate 19 (replicate 5 (128, 128, 128))"

definition gray_image :: image where
  "gray_image = replicate 20 [(100, 100, 100)]"

text \<open>
  Two collaborators for examples of a batch: every entry is a file; the body fails on
  the file named \<open>bad\<close> and succeeds on every other.
\<close>

definition every_file :: "string \<Rightarrow> bool" where
  "every_file f = True"

definition fails_on_bad :: "string \<Rightarrow> exn + unit" where
  "fails_on_bad f = (if f = ''bad'' then Inl (OtherException ''unreadable'') else Inr ())"

text \<open>The unit roundoff of float64.\<close>

definition u64 :: rat where
  "u64 = 1 / 2 ^ 53"

text \<open>
  A 20 x 4 buffer with a light leak in the border: one border pixel has red 255, the
  other red samples of the border are 1, 0 and 0.
\<close>

definition leak_image :: image where
  "leak_image = [(255, 160, 160), (1, 160, 160), (0, 160, 160), (0, 160, 160)] #
     replicate 19 (replicate 4 (0, 0, 0))"

text \<open>A 1 x 2 buffer of mean brightness 80.\<close>

definition dim_image :: image where
  "dim_image = [[(50, 100, 150), (30, 60, 90)]]"

section \<open>Facts about float64 rounding\<close>

lemma round_half_even_of_int [simp]: "round_half_even (of_int z) = z"
  by (simp add: round_half_even_def)

lemma round_half_even_error: "\<bar>of_int (round_half_even m) - m\<bar> \<le> 1 / 2"
proof -
  have "of_int \<lfloor>m\<rfloor> \<le> m" "m < of_int \<lfloor>m\<rfloor> + 1" by linarith+
  then show ?thesis
    by (auto simp: round_half_even_def Let_def abs_le_iff)
qed

lemma exponent_le:
  assumes "0 < x"
  shows "2 powi exponent x \<le> x"
proof -
  obtain p q where pq: "quotient_of x = (p, q)" by (cases "quotient_of x")
  then have q: "0 < q" and x: "x = of_int p / of_int q"
    by (simp_all add: quotient_of_denom_pos quotient_of_div)
  from assms x q have p: "0 < p" by (simp add: zero_less_divide_iff)
  define d where "d = bitlen p - bitlen q"
  show ?thesis
  proof (cases "2 powi d \<le> x")
    case True
    then show ?thesis by (simp add: exponent_def pq d_def)
  next
    case False
    then have e: "exponent x = d - 1" by (simp add: exponent_def pq d_def)
    have bp: "1 \<le> bitlen p" using p by (simp add: bitlen_alt_def)
    have bq: "0 \<le> bitlen q" by (rule bitlen_nonneg)
    have 1: "(2::rat) powi (bitlen p - 1) \<le> of_int p"
    proof -
      have "(2::int) ^ nat (bitlen p - 1) \<le> p" using bitlen_bounds[OF p] by simp
      then have "(of_int ((2::int) ^ nat (bitlen p - 1)) :: rat) \<le> of_int p" by (simp only: of_int_le_iff)
      then show ?thesis using bp by (simp add: power_int_def)
    qed
    have 2: "of_int q \<le> (2::rat) powi (bitlen q)"
    proof -
      have "q < (2::int) ^ nat (bitlen q)" using bitlen_bounds[OF q] by simp
      then have "(of_int q :: rat) < of_int ((2::int) ^ nat (bitlen q))" by (simp only: of_int_less_iff)
      then show ?thesis using bq by (simp add: power_int_def)
    qed
    have "(2::rat) powi (d - 1) = 2 powi (bitlen p - 1) / 2 powi (bitlen q)"
      by (simp add: d_def power_int_diff)
    also have "\<dots> \<le> of_int p / of_int q"
      using 1 2 q p by (intro frac_le) auto
    finally show ?thesis using e x by simp
  qed
qed

lemma rnd64_0 [simp]: "rnd64 0 = 0"
  by (simp add: rnd64_def)

text \<open>The relative error of one rounding is at most \<open>2 ^ -53\<close>.\<close>

lemma rnd64_error: "\<bar>rnd64 x - x\<bar> \<le> \<bar>x\<bar> / 2 ^ 53"
proof (cases "x = 0")
  case True
  then show ?thesis by simp
next
  case False
  define e where "e = exponent \<bar>x\<bar>"
  define s :: rat where "s = 2 powi (52 - e)"
  have s: "0 < s" by (simp add: s_def)
  have r: "rnd64 x = of_int (round_half_even (x * s)) / s"
    using False by (simp add: rnd64_def e_def s_def Let_def)
  have "2 powi e \<le> \<bar>x\<bar>" using exponent_le[of "\<bar>x\<bar>"] False by (simp add: e_def)
  then have "2 powi e * s \<le> \<bar>x\<bar> * s" using s by simp
  moreover have "(2::rat) powi e * s = 2 ^ 52"
    by (simp add: s_def flip: power_int_add)
  ultimately have m: "2 ^ 52 \<le> \<bar>x\<bar> * s" by simp
  have "\<bar>rnd64 x - x\<bar> = \<bar>of_int (round_half_even (x * s)) - x * s\<bar> / s"
    using s by (simp add: r field_simps flip: abs_mult)
  also have "\<dots> \<le> (1 / 2) / s"
    by (rule divide_right_mono[OF round_half_even_error]) (use s in simp)
  also have "\<dots> \<le> (\<bar>x\<bar> * s / 2 ^ 53) / s"
    using m s by (intro divide_right_mono) auto
  also have "\<dots> = \<bar>x\<bar> / 2 ^ 53" using s by simp
  finally show ?thesis .
qed

text \<open>A value with a significand of at most 53 bits is not changed by rounding.\<close>

lemma rnd64_representable:
  assumes "\<bar>n\<bar> < 2 ^ 53"
  shows "rnd64 (of_int n * 2 powi k) = of_int n * 2 powi k"
proof (cases "n = 0")
  case True
  then show ?thesis by simp
next
  case False
  define x :: rat where "x = of_int n * 2 powi k"
  define e where "e = exponent \<bar>x\<bar>"
  have x0: "x \<noteq> 0" using False by (simp add: x_def)
  have "2 powi e \<le> \<bar>x\<bar>" using exponent_le[of "\<bar>x\<bar>"] x0 by (simp add: e_def)
  also have "\<bar>x\<bar> = of_int \<bar>n\<bar> * 2 powi k" by (simp add: x_def abs_mult)
  also have "\<dots> < 2 ^ 53 * 2 powi k"
  proof -
    have "(of_int \<bar>n\<bar> :: rat) < of_int (2 ^ 53)" using assms by (simp only: of_int_less_iff)
    then show ?thesis by simp
  qed
  also have "\<dots> = 2 powi (53 + k)" by (simp add: power_int_add)
  finally have lt: "(2::rat) powi e < 2 powi (53 + k)" .
  have "e < 53 + k"
  proof (rule ccontr)
    assume "\<not> e < 53 + k"
    then have "(2::rat) powi (53 + k) \<le> 2 powi e" by (intro power_int_increasing) auto
    with lt show False by simp
  qed
  then have "0 \<le> 52 - e + k" by simp
  then obtain j :: nat where j: "52 - e + k = int j"
    using nonneg_int_cases by blast
  have xs: "x * 2 powi (52 - e) = of_int (n * 2 ^ j)"
  proof -
    have "x * 2 powi (52 - e) = of_int n * 2 powi (k + (52 - e))"
      by (simp add: x_def power_int_add)
    also have "k + (52 - e) = int j" using j by simp
    finally show ?thesis by simp
  qed
  have "rnd64 x = of_int (n * 2 ^ j) / 2 powi (52 - e)"
    using x0 by (simp add: rnd64_def Let_def xs[unfolded e_def] e_def del: of_int_mult of_int_power)
  also have "\<dots> = x"
    unfolding xs[symmetric] by simp
  finally show ?thesis by (simp add: x_def)
qed

lemma rnd64_of_int: "\<bar>n\<bar> < 2 ^ 53 \<Longrightarrow> rnd64 (of_int n) = of_int n"
  using rnd64_representable[of n 0] by simp

lemma rnd64_of_nat: "n < 2 ^ 53 \<Longrightarrow> rnd64 (of_nat n) = of_nat n"
  using rnd64_of_int[of "int n"] by simp

lemma rnd64_1 [simp]: "rnd64 1 = 1"
  using rnd64_of_int[of 1] by simp

lemma rnd64_numeral [simp]: "(numeral k :: int) < 2 ^ 53 \<Longrightarrow> rnd64 (numeral k) = numeral k"
  using rnd64_of_int[of "numeral k"] by simp

lemma rnd64_half_numeral [simp]:
  "(numeral k :: int) < 2 ^ 53 \<Longrightarrow> rnd64 (numeral k / 2) = numeral k / 2"
  using rnd64_representable[of "numeral k" "-1"] by simp

lemma rnd64_half [simp]: "rnd64 (1 / 2) = 1 / 2"
  using rnd64_representable[of 1 "-1"] by simp

lemma rnd64_bounds:
  assumes "0 \<le> x"
  shows "x - x / 2 ^ 53 \<le> rnd64 x" and "rnd64 x \<le> x + x / 2 ^ 53"
proof -
  have "\<bar>rnd64 x - x\<bar> \<le> x / 2 ^ 53"
    using rnd64_error[of x] assms by (simp only: abs_of_nonneg)
  then show "x - x / 2 ^ 53 \<le> rnd64 x" and "rnd64 x \<le> x + x / 2 ^ 53"
    by linarith+
qed

lemma rnd64_nonneg: "0 \<le> x \<Longrightarrow> 0 \<le> rnd64 x"
proof -
  assume x: "0 \<le> x"
  then have "x / 2 ^ 53 \<le> x" by (simp add: field_simps)
  with rnd64_bounds(1)[OF x] x show ?thesis by linarith
qed

lemma rnd64_pos: "0 < x \<Longrightarrow> 0 < rnd64 x"
proof -
  assume x: "0 < x"
  then have "x / 2 ^ 53 < x" by (simp add: field_simps)
  with rnd64_bounds(1)[of x] x show ?thesis by linarith
qed

section \<open>Facts about samples and stages\<close>

lemma uint8_range: "0 \<le> uint (s :: uint8) \<and> uint s \<le> 255"
  using uint_bounded[of s] by simp

lemma unat_255_minus: "unat (255 - s :: uint8) = 255 - unat s"
proof -
  have "unat s < 2 ^ 8" using unsigned_less[of s, where ?'a = nat] by simp
  then have "s \<le> 255" by (simp add: word_le_nat_alt)
  then show ?thesis by (simp add: unat_sub)
qed

lemma samples_map:
  "samples (map (map (\<lambda>p. (f (red p), g (green p), h (blue p)))) img) =
   concat (map (\<lambda>p. [f (red p), g (green p), h (blue p)]) (concat img))"
  by (simp add: samples_def map_concat comp_def red_def green_def blue_def)

text \<open>The three slice assignments together scale every pixel channel by channel.\<close>

lemma auto_balance_color_eq:
  "auto_balance_color img =
     Inr (map (map (\<lambda>p. (scale_sample (red_correction img) (red p),
                           scale_sample (green_correction img) (green p),
                           scale_sample (blue_correction img) (blue p)))) img)"
  by (simp add: auto_balance_color_def scale_red_def scale_green_def scale_blue_def
      red_def green_def blue_def comp_def)

lemma border_height_20: "border_height 20 = 1"
  by code_simp

lemma border_height_19: "border_height 19 = 0"
  by code_simp

lemma scale_sample_Fin:
  "uint (scale_sample (Fin g) s) = \<lfloor>min 255 (max 0 (rnd64 (of_nat (unat s) * g)))\<rfloor>"
proof -
  define v :: rat where "v = min 255 (max 0 (rnd64 (of_nat (unat s) * g)))"
  have v: "0 \<le> v" "v \<le> 255" by (simp_all add: v_def)
  then have f: "0 \<le> \<lfloor>v\<rfloor>" "\<lfloor>v\<rfloor> \<le> 255" by (simp_all add: floor_le_iff le_floor_iff)
  have "scale_sample (Fin g) s = of_int \<lfloor>v\<rfloor>"
    using v by (simp add: scale_sample_def of_uint8_def trunc_def v_def)
  moreover have "uint (word_of_int \<lfloor>v\<rfloor> :: uint8) = \<lfloor>v\<rfloor>"
    using f by (simp add: uint_word_of_int take_bit_int_eq_self)
  ultimately show ?thesis by (simp add: v_def)
qed

lemma scale_sample_0 [simp]: "scale_sample (Fin g) 0 = 0"
  by (simp add: scale_sample_def of_uint8_def trunc_def)

lemma cast_image_means:
  "mean_red cast_image = Fin 1" "mean_green cast_image = Fin 4" "mean_blue cast_image = Fin 1"
  by (simp_all add: mean_red_def mean_green_def mean_blue_def border_area_def cast_image_def
      border_height_20 np_mean_uint8_def red_def green_def blue_def)

lemma cast_image_corrections:
  "red_correction cast_image = Fin 2" "green_correction cast_image = Fin (1 / 2)"
  "blue_correction cast_image = Fin 2"
  by (simp_all add: red_correction_def green_correction_def blue_correction_def mean_gray_def
      cast_image_means)

lemma scale_sample_examples:
  "scale_sample (Fin 2) 1 = 2"
  "scale_sample (Fin (1 / 2)) 4 = 2" "scale_sample (Fin (1 / 2)) 3 = 1"
  by code_simp+

lemma cast_image_balanced:
  "auto_balance_color cast_image = Inr ([(2, 2, 2)] # replicate 19 [(0, 1, 0)])"
  by (simp add: auto_balance_color_eq cast_image_corrections)
     (simp add: cast_image_def red_def green_def blue_def scale_sample_examples)

lemma rnd64_255_4: "rnd64 (255 / 4) = 255 / 4"
  using rnd64_representable[of 255 "-2"] by simp

lemma spot_image_factor:
  "mean_brightness seq_add_reduce spot_image = Fin (255 / 4)"
  "adjustment_factor seq_add_reduce spot_image = Fin (rnd64 (512 / 255))"
  by (simp_all add: adjustment_factor_def target_brightness_def mean_brightness_def
      np_mean_float64_def gray_def seq_add_reduce_def spot_image_def np_mean_uint8_def
      red_def green_def blue_def rnd64_255_4)

lemma spot_product: "rnd64 (255 * rnd64 (512 / 255)) = 512"
  by code_simp

lemma scale_sample_spot: "scale_sample (Fin (rnd64 (512 / 255))) 255 = 255"
  by code_simp

lemma spot_image_adjusted: "auto_adjust_exposure seq_add_reduce spot_image = Inr spot_image"
  by (simp add: auto_adjust_exposure_def spot_image_factor scale_all_def)
     (simp add: spot_image_def red_def green_def blue_def scale_sample_spot)

lemma scale_sample_NaN [simp]: "scale_sample NaN s = cast_undefined"
  by (simp add: scale_sample_def of_uint8_def)

lemma scale_sample_PInf_0 [simp]: "scale_sample PInf 0 = cast_undefined"
  by (simp add: scale_sample_def of_uint8_def)

lemma np_mean_uint8_Nil [simp]: "np_mean_uint8 [] = NaN"
  by (simp add: np_mean_uint8_def)

lemma np_mean_uint8_zeros:
  assumes "list_all (\<lambda>s. s = 0) xs"
  shows "np_mean_uint8 xs = (if xs = [] then NaN else Fin 0)"
proof -
  have s: "sum_list (map unat xs) = 0" using assms by (induction xs) auto
  show ?thesis by (simp add: np_mean_uint8_def s)
qed

lemma black_border:
  assumes "list_all (\<lambda>p. p = (0, 0, 0)) (concat img)"
  shows "list_all (\<lambda>s. s = 0) (map red (concat (border_area img)))"
    and "list_all (\<lambda>s. s = 0) (map green (concat (border_area img)))"
    and "list_all (\<lambda>s. s = 0) (map blue (concat (border_area img)))"
proof -
  have sub: "p = (0, 0, 0)" if "p \<in> set (concat (border_area img))" for p
    using assms that by (auto simp: list_all_iff border_area_def dest: in_set_takeD)
  show "list_all (\<lambda>s. s = 0) (map red (concat (border_area img)))"
    unfolding list_all_iff using sub by (auto simp: red_def simp del: set_concat)
  show "list_all (\<lambda>s. s = 0) (map green (concat (border_area img)))"
    unfolding list_all_iff using sub by (auto simp: green_def simp del: set_concat)
  show "list_all (\<lambda>s. s = 0) (map blue (concat (border_area img)))"
    unfolding list_all_iff using sub by (auto simp: blue_def simp del: set_concat)
qed

lemma black_corrections:
  assumes "list_all (\<lambda>p. p = (0, 0, 0)) (concat img)"
  shows "red_correction img = NaN" "green_correction img = NaN" "blue_correction img = NaN"
  using np_mean_uint8_zeros[OF black_border(1)[OF assms]]
    np_mean_uint8_zeros[OF black_border(2)[OF assms]]
    np_mean_uint8_zeros[OF black_border(3)[OF assms]]
  by (simp_all add: red_correction_def green_correction_def blue_correction_def mean_gray_def
      mean_red_def mean_green_def mean_blue_def split: if_splits)

lemma NaN_balanced:
  assumes "red_correction img = NaN" "green_correction img = NaN" "blue_correction img = NaN"
  shows "auto_balance_color img =
    Inr (map (map (\<lambda>p. (cast_undefined, cast_undefined, cast_undefined))) img)"
  by (simp add: auto_balance_color_eq assms)

lemma black_gray:
  assumes "list_all (\<lambda>p. p = (0, 0, 0)) (concat img)"
  shows "gray img = replicate (length (concat img)) (Fin 0)"
proof -
  have "map (\<lambda>p. np_mean_uint8 [red p, green p, blue p]) ps = replicate (length ps) (Fin 0)"
    if "list_all (\<lambda>p. p = (0, 0, 0)) ps" for ps
    using that by (induction ps) (auto simp: np_mean_uint8_def red_def green_def blue_def)
  from this[OF assms] show ?thesis by (simp add: gray_def)
qed

lemma black_factor:
  assumes "list_all (\<lambda>p. p = (0, 0, 0)) (concat img)"
    and "add_reduce (replicate (length (concat img)) (Fin 0)) = Fin 0"
  shows "adjustment_factor add_reduce img = (if concat img = [] then NaN else PInf)"
  by (simp add: adjustment_factor_def mean_brightness_def np_mean_float64_def black_gray[OF assms(1)]
      assms(2) target_brightness_def)

lemma black_adjusted:
  assumes "list_all (\<lambda>p. p = (0, 0, 0)) (concat img)"
    and "add_reduce (replicate (length (concat img)) (Fin 0)) = Fin 0"
  shows "auto_adjust_exposure add_reduce img =
    Inr (map (map (\<lambda>p. (cast_undefined, cast_undefined, cast_undefined))) img)"
proof -
  have px: "\<forall>row \<in> set img. \<forall>p \<in> set row. p = (0, 0, 0)"
    using assms(1) by (auto simp: list_all_iff)
  have sc: "scale_all c img = map (map (\<lambda>p. (cast_undefined, cast_undefined, cast_undefined))) img"
    if c: "c = PInf \<or> c = NaN" for c
    unfolding scale_all_def
  proof (intro map_cong refl)
    fix row p
    assume "row \<in> set img" "p \<in> set row"
    with px have "p = (0, 0, 0)" by blast
    then show "(scale_sample c (red p), scale_sample c (green p), scale_sample c (blue p)) =
        (cast_undefined, cast_undefined, cast_undefined)"
      using c by (auto simp: red_def green_def blue_def)
  qed
  show ?thesis
    by (simp add: auto_adjust_exposure_def black_factor[of img add_reduce, OF assms] sc)
qed

lemma seq_add_reduce_zeros: "seq_add_reduce (replicate n (Fin 0)) = Fin 0"
  unfolding seq_add_reduce_def by (induction n) simp_all

lemma black_image_black: "list_all (\<lambda>p. p = (0, 0, 0)) (concat black_image)"
  by (simp add: black_image_def list_all_iff)

lemma empty_border_means:
  assumes "border_height (length img) = 0"
  shows "mean_red img = NaN" "mean_green img = NaN" "mean_blue img = NaN"
  using assms by (simp_all add: mean_red_def mean_green_def mean_blue_def border_area_def)

lemma empty_border_corrections:
  assumes "border_height (length img) = 0"
  shows "red_correction img = NaN" "green_correction img = NaN" "blue_correction img = NaN"
  by (simp_all add: red_correction_def green_correction_def blue_correction_def mean_gray_def
      empty_border_means[OF assms])

lemma short_image_border: "border_height (length short_image) = 0"
  by (simp add: short_image_def border_height_19)

lemma batch_loop_dialogs:
  "dialogs (batch_loop isfile body listing st) =
     dialogs st @ concat (map (\<lambda>f. case body f of Inl e \<Rightarrow> [Warning f e] | Inr u \<Rightarrow> [])
       (filter isfile listing))"
  by (induction listing arbitrary: st) (auto split: sum.splits)

lemma batch_loop_saved:
  "saved (batch_loop isfile body listing st) =
     saved st @ filter (\<lambda>f. \<not> isl (body f)) (filter isfile listing)"
  by (induction listing arbitrary: st) (auto split: sum.splits)

text \<open>
  On a buffer of shape (height, width, 3) no stage raises, so a file fails only in
  its decoder or in saving.
\<close>

lemma try_body_eq:
  "try_body add_reduce bf cf sf open_image save f =
     bind_exn (open_image f) (\<lambda>a. save f (auto_enhance_image bf cf sf
       (projr (auto_adjust_exposure add_reduce (projr (auto_balance_color (inverted_image a)))))))"
  by (simp add: try_body_def bind_exn_def auto_balance_color_def auto_adjust_exposure_def
      split: sum.splits)

lemma scale_sample_1 [simp]: "scale_sample (Fin 1) s = s"
proof -
  define n where "n = unat s"
  have "unat s < 2 ^ 8" using unsigned_less[of s, where ?'a = nat] by simp
  then have le: "n \<le> 255" by (simp add: n_def)
  then have "(of_nat n :: rat) \<le> 255" by (metis of_nat_le_iff of_nat_numeral)
  moreover have "rnd64 (of_nat n) = of_nat n"
    using le by (intro rnd64_of_nat) simp
  ultimately have "to_uint8 (clip (fmul (Fin (of_nat n)) (Fin 1))) = of_int (int n)"
    by (simp add: trunc_def)
  also have "\<dots> = s" by (simp add: n_def)
  finally show ?thesis by (simp add: scale_sample_def of_uint8_def n_def)
qed

lemma mean_gray_of_nat:
  assumes "mean_red img = Fin (of_nat k)" "mean_green img = Fin (of_nat k)"
    "mean_blue img = Fin (of_nat k)" "k \<le> 255"
  shows "mean_gray img = Fin (of_nat k)"
proof -
  have 1: "rnd64 (of_nat k + of_nat k) = of_nat (k + k)"
    using assms(4) rnd64_of_nat[of "k + k"] by simp
  have 2: "rnd64 (of_nat (k + k) + of_nat k) = of_nat (k + k + k)"
    using assms(4) rnd64_of_nat[of "k + k + k"] by simp
  have 3: "rnd64 (of_nat (k + k + k) / 3) = of_nat k"
    using assms(4) rnd64_of_nat[of k] by simp
  show ?thesis
    unfolding mean_gray_def assms(1-3) by (simp only: fadd.simps fdiv.simps 1 2 3) simp
qed

lemma rnd64_7_5: "rnd64 (7 / 5) = 3152519739159347 / 2251799813685248"
  by code_simp

lemma neutral_image_means:
  "mean_red neutral_image = Fin (3152519739159347 / 2251799813685248)"
  "mean_green neutral_image = Fin (3152519739159347 / 2251799813685248)"
  "mean_blue neutral_image = Fin (3152519739159347 / 2251799813685248)"
  by (simp_all add: mean_red_def mean_green_def mean_blue_def border_area_def neutral_image_def
      border_height_20 np_mean_uint8_def red_def green_def blue_def rnd64_7_5)

lemma neutral_gray_value:
  "fdiv (fadd (fadd (Fin (3152519739159347 / 2251799813685248))
      (Fin (3152519739159347 / 2251799813685248))) (Fin (3152519739159347 / 2251799813685248)))
     (Fin 3) = Fin (6305039478318693 / 4503599627370496)"
  by code_simp

lemma neutral_gain_value:
  "fdiv (Fin (6305039478318693 / 4503599627370496)) (Fin (3152519739159347 / 2251799813685248))
     = Fin (9007199254740991 / 9007199254740992)"
  by code_simp

lemma neutral_image_corrections:
  "red_correction neutral_image = Fin (9007199254740991 / 9007199254740992)"
  "green_correction neutral_image = Fin (9007199254740991 / 9007199254740992)"
  "blue_correction neutral_image = Fin (9007199254740991 / 9007199254740992)"
  unfolding red_correction_def green_correction_def blue_correction_def mean_gray_def
    neutral_image_means neutral_gray_value neutral_gain_value by (rule refl)+

lemma scale_sample_below_one:
  "scale_sample (Fin (9007199254740991 / 9007199254740992)) 1 = 0"
  "scale_sample (Fin (9007199254740991 / 9007199254740992)) 2 = 1"
  "scale_sample (Fin (9007199254740991 / 9007199254740992)) 128 = 127"
  by code_simp+

lemma gray_image_means:
  "mean_red gray_image = Fin (of_nat 100)" "mean_green gray_image = Fin (of_nat 100)"
  "mean_blue gray_image = Fin (of_nat 100)"
  by (simp_all add: mean_red_def mean_green_def mean_blue_def border_area_def gray_image_def
      border_height_20 np_mean_uint8_def red_def green_def blue_def)

lemma rnd64_4_5: "rnd64 (4 / 5) = 3602879701896397 / 4503599627370496"
  by code_simp

lemma leak_image_means:
  "mean_red leak_image = Fin 64" "mean_green leak_image = Fin 160" "mean_blue leak_image = Fin 160"
  by (simp_all add: mean_red_def mean_green_def mean_blue_def border_area_def leak_image_def
      border_height_20 np_mean_uint8_def red_def green_def blue_def)

lemma leak_image_corrections:
  "red_correction leak_image = Fin 2"
  "green_correction leak_image = Fin (3602879701896397 / 4503599627370496)"
  "blue_correction leak_image = Fin (3602879701896397 / 4503599627370496)"
  by (simp_all add: red_correction_def green_correction_def blue_correction_def mean_gray_def
      leak_image_means rnd64_4_5)

lemma scale_sample_leak:
  "scale_sample (Fin 2) 255 = 255"
  "scale_sample (Fin (3602879701896397 / 4503599627370496)) 160 = 128"
  by code_simp+

lemma leak_image_balanced:
  "auto_balance_color leak_image =
     Inr ([(255, 128, 128), (2, 128, 128), (0, 128, 128), (0, 128, 128)] #
          replicate 19 (replicate 4 (0, 0, 0)))"
  by (simp add: auto_balance_color_eq leak_image_corrections)
     (simp add: leak_image_def red_def green_def blue_def scale_sample_leak scale_sample_examples)

lemma u64_pos: "0 < u64" "u64 < 1"
  by (simp_all add: u64_def)

lemma rnd64_rel:
  assumes "0 \<le> x"
  shows "(1 - u64) * x \<le> rnd64 x" and "rnd64 x \<le> (1 + u64) * x"
  using rnd64_bounds[OF assms] by (simp_all add: u64_def algebra_simps)

lemma floor_clip_bounds:
  assumes "0 \<le> y" "y < 256"
  shows "of_int \<lfloor>min 255 (max 0 y)\<rfloor> \<le> y" and "y - 1 \<le> of_int \<lfloor>min 255 (max 0 (y::rat))\<rfloor>"
proof -
  show "of_int \<lfloor>min 255 (max 0 y)\<rfloor> \<le> y"
  proof -
    have "of_int \<lfloor>min 255 (max 0 y)\<rfloor> \<le> min 255 (max 0 y)" by (rule of_int_floor_le)
    also have "\<dots> \<le> y" using assms by simp
    finally show ?thesis .
  qed
  show "y - 1 \<le> of_int \<lfloor>min 255 (max 0 y)\<rfloor>"
  proof (cases "y \<le> 255")
    case True
    then have "min 255 (max 0 y) = y" using assms by simp
    then show ?thesis by (simp add: le_floor_iff) linarith
  next
    case False
    then have "min 255 (max 0 y) = 255" by simp
    then show ?thesis using assms by simp
  qed
qed

text \<open>One sample that is not clamped: the stored value is within one below the product.\<close>

lemma scale_sample_bounds:
  assumes "0 \<le> g" and "rnd64 (of_nat (unat x) * g) < 256"
  shows "of_nat (unat (scale_sample (Fin g) x)) \<le> (1 + u64) * (of_nat (unat x) * g)"
    and "(1 - u64) * (of_nat (unat x) * g) - 1 \<le> of_nat (unat (scale_sample (Fin g) x))"
proof -
  define s :: rat where "s = of_nat (unat x)"
  define y where "y = rnd64 (s * g)"
  have "0 \<le> s" unfolding s_def by (rule of_nat_0_le_iff)
  then have sg: "0 \<le> s * g" using assms(1) by (rule mult_nonneg_nonneg)
  have y: "0 \<le> y" "y < 256" using rnd64_nonneg[OF sg] assms(2) by (simp_all add: y_def s_def)
  have "(of_nat (unat (scale_sample (Fin g) x)) :: rat) = of_int (uint (scale_sample (Fin g) x))"
    by simp
  also have "\<dots> = of_int \<lfloor>min 255 (max 0 y)\<rfloor>"
    by (simp only: scale_sample_Fin y_def s_def)
  finally have k: "(of_nat (unat (scale_sample (Fin g) x)) :: rat) = of_int \<lfloor>min 255 (max 0 y)\<rfloor>" .
  have "of_int \<lfloor>min 255 (max 0 y)\<rfloor> \<le> y" by (rule floor_clip_bounds(1)[OF y])
  also have "y \<le> (1 + u64) * (s * g)" unfolding y_def by (rule rnd64_rel(2)[OF sg])
  finally show "of_nat (unat (scale_sample (Fin g) x)) \<le> (1 + u64) * (of_nat (unat x) * g)"
    unfolding k s_def .
  have "(1 - u64) * (s * g) - 1 \<le> y - 1" using rnd64_rel(1)[OF sg] by (simp add: y_def)
  also have "\<dots> \<le> of_int \<lfloor>min 255 (max 0 y)\<rfloor>" by (rule floor_clip_bounds(2)[OF y])
  finally show "(1 - u64) * (of_nat (unat x) * g) - 1 \<le> of_nat (unat (scale_sample (Fin g) x))"
    unfolding k s_def .
qed

text \<open>The sum over a list of samples none of which is clamped.\<close>

lemma scaled_sum_bounds:
  assumes "0 \<le> g" and "\<forall>x \<in> set xs. rnd64 (of_nat (unat x) * g) < 256"
  shows "of_nat (sum_list (map (\<lambda>x. unat (scale_sample (Fin g) x)) xs))
      \<le> (1 + u64) * (of_nat (sum_list (map unat xs)) * g)"
    and "(1 - u64) * (of_nat (sum_list (map unat xs)) * g) - of_nat (length xs)
      \<le> of_nat (sum_list (map (\<lambda>x. unat (scale_sample (Fin g) x)) xs))"
  using assms(2)
proof (induction xs)
  case Nil
  {
    case 1
    show ?case by simp
  next
    case 2
    show ?case by simp
  }
next
  case (Cons x xs)
  {
    case 1
    with Cons.IH(1) scale_sample_bounds(1)[OF assms(1), of x]
    show ?case by (simp add: algebra_simps)
  next
    case 2
    with Cons.IH(2) scale_sample_bounds(2)[OF assms(1), of x]
    show ?case by (simp add: algebra_simps)
  }
qed

lemma rnd64_le:
  assumes "0 \<le> x" "x \<le> a"
  shows "rnd64 x \<le> (1 + u64) * a"
proof -
  have "rnd64 x \<le> (1 + u64) * x" by (rule rnd64_rel(2)[OF assms(1)])
  also have "\<dots> \<le> (1 + u64) * a"
    using assms(2) u64_pos by (intro mult_left_mono) auto
  finally show ?thesis .
qed

text \<open>
  A mean \<open>m\<close> of samples with sum \<open>S\<close> and count \<open>n\<close>, and the gain \<open>g\<close> that takes it to
  \<open>G\<close>: the gain times the sum is \<open>G * n\<close> up to three roundings.
\<close>

lemma gain_sum_bounds:
  fixes S n G m g :: rat
  assumes n: "0 < n" and S: "0 < S" and G: "0 \<le> G"
    and m: "m = rnd64 (S / n)" and g: "g = rnd64 (G / m)"
  shows "0 < m" and "0 \<le> g"
    and "S * g \<le> (1 + u64) / (1 - u64) * (G * n)"
    and "(1 - u64) / (1 + u64) * (G * n) \<le> S * g"
proof -
  have u: "0 < 1 - u64" "0 < 1 + u64" using u64_pos by simp_all
  have sn: "0 < S / n" using n S by simp
  then have sn0: "0 \<le> S / n" by simp
  have m1: "(1 - u64) * (S / n) \<le> m" and m2: "m \<le> (1 + u64) * (S / n)"
    unfolding m using rnd64_rel[OF sn0] by simp_all
  show mpos: "0 < m"
  proof -
    have "0 < (1 - u64) * (S / n)" using u(1) sn by (rule mult_pos_pos)
    with m1 show ?thesis by simp
  qed
  have gm: "0 \<le> G / m" using G mpos by simp
  have g1: "(1 - u64) * (G / m) \<le> g" and g2: "g \<le> (1 + u64) * (G / m)"
    unfolding g using rnd64_rel[OF gm] by simp_all
  show "0 \<le> g" unfolding g by (rule rnd64_nonneg[OF gm])
  have a: "S / m \<le> n / (1 - u64)"
  proof -
    have "(1 - u64) * (S / n) * n \<le> m * n" using m1 n by (intro mult_right_mono) auto
    then have "(1 - u64) * S \<le> m * n" using n by simp
    then show ?thesis using mpos u(1) by (simp add: field_simps)
  qed
  have b: "n / (1 + u64) \<le> S / m"
  proof -
    have "m * n \<le> (1 + u64) * (S / n) * n" using m2 n by (intro mult_right_mono) auto
    then have "m * n \<le> (1 + u64) * S" using n by simp
    then show ?thesis using mpos u(2) by (simp add: field_simps)
  qed
  show "S * g \<le> (1 + u64) / (1 - u64) * (G * n)"
  proof -
    have "S * g \<le> S * ((1 + u64) * (G / m))" using g2 S by (intro mult_left_mono) auto
    also have "\<dots> = ((1 + u64) * G) * (S / m)" by simp
    also have "\<dots> \<le> ((1 + u64) * G) * (n / (1 - u64))"
      using a G u(2) by (intro mult_left_mono) auto
    also have "\<dots> = (1 + u64) / (1 - u64) * (G * n)" by simp
    finally show ?thesis .
  qed
  show "(1 - u64) / (1 + u64) * (G * n) \<le> S * g"
  proof -
    have "(1 - u64) / (1 + u64) * (G * n) = ((1 - u64) * G) * (n / (1 + u64))" by simp
    also have "\<dots> \<le> ((1 - u64) * G) * (S / m)"
      using b G u(1) by (intro mult_left_mono) auto
    also have "\<dots> = S * ((1 - u64) * (G / m))" by simp
    also have "\<dots> \<le> S * g" using g1 S by (intro mult_left_mono) auto
    finally show ?thesis .
  qed
qed

lemma np_mean_uint8_cases:
  "np_mean_uint8 xs =
     (if xs = [] then NaN
      else Fin (rnd64 (of_nat (sum_list (map unat xs)) / of_nat (length xs))))"
  by (simp add: np_mean_uint8_def)

lemma sum_unat_le: "sum_list (map unat (xs :: uint8 list)) \<le> 255 * length xs"
proof (induction xs)
  case Nil
  show ?case by simp
next
  case (Cons x xs)
  have "unat x < 2 ^ 8" using unsigned_less[of x, where ?'a = nat] by simp
  with Cons show ?case by simp
qed

lemma np_mean_uint8_range:
  assumes "np_mean_uint8 xs = Fin m"
  shows "0 \<le> m" and "m \<le> (1 + u64) * 255"
proof -
  define S :: rat where "S = of_nat (sum_list (map unat xs))"
  define n :: rat where "n = of_nat (length xs)"
  from assms have ne: "xs \<noteq> []" and m: "m = rnd64 (S / n)"
    by (simp_all add: np_mean_uint8_cases S_def n_def split: if_splits)
  have n: "0 < n" using ne by (simp add: n_def)
  have S0: "0 \<le> S" unfolding S_def by (rule of_nat_0_le_iff)
  have "S \<le> of_nat (255 * length xs)" unfolding S_def using sum_unat_le[of xs] by (simp only: of_nat_le_iff)
  then have "S \<le> 255 * n" by (simp add: n_def)
  then have le: "S / n \<le> 255" using n by (simp add: field_simps)
  have ge: "0 \<le> S / n" using S0 n by simp
  show "0 \<le> m" unfolding m by (rule rnd64_nonneg[OF ge])
  show "m \<le> (1 + u64) * 255" unfolding m by (rule rnd64_le[OF ge le])
qed

lemma gray_range:
  assumes "0 \<le> a" "a \<le> (1 + u64) * 255" "0 \<le> b" "b \<le> (1 + u64) * 255"
    "0 \<le> c" "c \<le> (1 + u64) * 255"
  shows "0 \<le> rnd64 (rnd64 (rnd64 (a + b) + c) / 3)"
    and "rnd64 (rnd64 (rnd64 (a + b) + c) / 3) \<le> 256"
proof -
  define c1 where "c1 = (1 + u64) * 255"
  have 1: "0 \<le> a + b" "a + b \<le> c1 + c1" using assms by (simp_all add: c1_def)
  have 2: "0 \<le> rnd64 (a + b)" "rnd64 (a + b) \<le> (1 + u64) * (c1 + c1)"
    using rnd64_nonneg[OF 1(1)] rnd64_le[OF 1] by simp_all
  have 3: "0 \<le> rnd64 (a + b) + c" "rnd64 (a + b) + c \<le> (1 + u64) * (c1 + c1) + c1"
    using 2 assms by (simp_all add: c1_def)
  have 4: "0 \<le> rnd64 (rnd64 (a + b) + c)"
    "rnd64 (rnd64 (a + b) + c) \<le> (1 + u64) * ((1 + u64) * (c1 + c1) + c1)"
    using rnd64_nonneg[OF 3(1)] rnd64_le[OF 3] by simp_all
  have 5: "0 \<le> rnd64 (rnd64 (a + b) + c) / 3"
    "rnd64 (rnd64 (a + b) + c) / 3 \<le> (1 + u64) * ((1 + u64) * (c1 + c1) + c1) / 3"
    using 4 by simp_all
  show "0 \<le> rnd64 (rnd64 (rnd64 (a + b) + c) / 3)" by (rule rnd64_nonneg[OF 5(1)])
  have "rnd64 (rnd64 (rnd64 (a + b) + c) / 3) \<le> (1 + u64) * ((1 + u64) * ((1 + u64) * (c1 + c1) + c1) / 3)"
    by (rule rnd64_le[OF 5])
  also have "\<dots> \<le> 256" by (simp add: c1_def u64_def)
  finally show "rnd64 (rnd64 (rnd64 (a + b) + c) / 3) \<le> 256" .
qed

text \<open>One channel of the border after balancing, none of its samples clamped.\<close>

lemma channel_sum_bounds:
  assumes mean: "np_mean_uint8 xs = Fin m" and m0: "m \<noteq> 0" and G: "0 \<le> G"
    and g: "g = rnd64 (G / m)"
    and nc: "\<forall>x \<in> set xs. rnd64 (of_nat (unat x) * g) < 256"
  shows "of_nat (sum_list (map (\<lambda>x. unat (scale_sample (Fin g) x)) xs))
      \<le> (1 + u64) * ((1 + u64) / (1 - u64) * (G * of_nat (length xs)))"
    and "(1 - u64) * ((1 - u64) / (1 + u64) * (G * of_nat (length xs))) - of_nat (length xs)
      \<le> of_nat (sum_list (map (\<lambda>x. unat (scale_sample (Fin g) x)) xs))"
proof -
  define S :: rat where "S = of_nat (sum_list (map unat xs))"
  define n :: rat where "n = of_nat (length xs)"
  from mean have ne: "xs \<noteq> []" and m: "m = rnd64 (S / n)"
    by (simp_all add: np_mean_uint8_cases S_def n_def split: if_splits)
  have n: "0 < n" using ne by (simp add: n_def)
  have "S \<noteq> 0" using m m0 by auto
  moreover have "0 \<le> S" unfolding S_def by (rule of_nat_0_le_iff)
  ultimately have S: "0 < S" by simp
  note gs = gain_sum_bounds[OF n S G m g]
  have u: "0 \<le> 1 - u64" "0 \<le> 1 + u64" using u64_pos by simp_all
  note ss = scaled_sum_bounds[OF gs(2) nc]
  have "of_nat (sum_list (map (\<lambda>x. unat (scale_sample (Fin g) x)) xs)) \<le> (1 + u64) * (S * g)"
    using ss(1) by (simp only: S_def)
  also have "\<dots> \<le> (1 + u64) * ((1 + u64) / (1 - u64) * (G * n))"
    using gs(3) u(2) by (rule mult_left_mono)
  finally show "of_nat (sum_list (map (\<lambda>x. unat (scale_sample (Fin g) x)) xs))
      \<le> (1 + u64) * ((1 + u64) / (1 - u64) * (G * of_nat (length xs)))"
    unfolding n_def .
  have "(1 - u64) * ((1 - u64) / (1 + u64) * (G * n)) - n \<le> (1 - u64) * (S * g) - n"
    using mult_left_mono[OF gs(4) u(1)] by simp
  also have "\<dots> \<le> of_nat (sum_list (map (\<lambda>x. unat (scale_sample (Fin g) x)) xs))"
    using ss(2) by (simp only: S_def n_def)
  finally show "(1 - u64) * ((1 - u64) / (1 + u64) * (G * of_nat (length xs))) - of_nat (length xs)
      \<le> of_nat (sum_list (map (\<lambda>x. unat (scale_sample (Fin g) x)) xs))"
    unfolding n_def .
qed

text \<open>Two integer sums squeezed into the same window of width below \<open>n + 1\<close>.\<close>

lemma means_within_one:
  fixes K1 K2 n :: nat and G :: rat
  assumes n: "0 < n" "n \<le> 2 ^ 42" and G: "0 \<le> G" "G \<le> 256"
    and K1: "of_nat K1 \<le> (1 + u64) * ((1 + u64) / (1 - u64) * (G * of_nat n))"
    and K2: "(1 - u64) * ((1 - u64) / (1 + u64) * (G * of_nat n)) - of_nat n \<le> of_nat K2"
  shows "of_nat K1 / of_nat n - of_nat K2 / of_nat n \<le> (1::rat)"
proof -
  define d where "d = (1 + u64) * ((1 + u64) / (1 - u64)) - (1 - u64) * ((1 - u64) / (1 + u64))"
  have d: "0 \<le> d" "d * 2 ^ 50 < 1" by (simp_all add: d_def u64_def)
  have "(of_nat n :: rat) \<le> of_nat (2 ^ 42)" using n(2) by (simp only: of_nat_le_iff)
  then have nn: "(of_nat n :: rat) \<le> 2 ^ 42" by simp
  have "G * of_nat n \<le> 256 * 2 ^ 42" using G nn by (intro mult_mono) auto
  then have Gn: "G * of_nat n \<le> 2 ^ 50" by simp
  have "of_nat K1 - of_nat K2 \<le> d * (G * of_nat n) + of_nat n"
    using K1 K2 by (simp add: d_def algebra_simps)
  also have "d * (G * of_nat n) \<le> d * 2 ^ 50" using Gn d(1) by (rule mult_left_mono)
  finally have "(of_nat K1 :: rat) - of_nat K2 < 1 + of_nat n" using d(2) by simp
  then have "(of_nat K1 :: rat) < of_nat (K2 + n + 1)" by simp
  then have "K1 < K2 + n + 1" by (simp only: of_nat_less_iff)
  then have "K1 \<le> K2 + n" by simp
  then have "(of_nat K1 :: rat) \<le> of_nat (K2 + n)" by (simp only: of_nat_le_iff)
  then have "(of_nat K1 :: rat) / of_nat n \<le> (of_nat K2 + of_nat n) / of_nat n"
    using n(1) by (simp add: divide_right_mono)
  then show ?thesis using n(1) by (simp add: add_divide_distrib)
qed

lemma fdiv_NaN_right: "fdiv x NaN = NaN"
  by (cases x) simp_all

lemma border_area_map: "border_area (map f img) = map f (border_area img)"
  by (simp add: border_area_def take_map)

text \<open>Finite gains: the border has pixels, and no channel mean of it is zero.\<close>

lemma finite_corrections:
  assumes "red_correction img = Fin gr" "green_correction img = Fin gg"
    "blue_correction img = Fin gb"
  obtains mr mg mb where
    "mean_red img = Fin mr" "mean_green img = Fin mg" "mean_blue img = Fin mb"
    "mr \<noteq> 0" "mg \<noteq> 0" "mb \<noteq> 0"
    "gr = rnd64 (rnd64 (rnd64 (rnd64 (mr + mg) + mb) / 3) / mr)"
    "gg = rnd64 (rnd64 (rnd64 (rnd64 (mr + mg) + mb) / 3) / mg)"
    "gb = rnd64 (rnd64 (rnd64 (rnd64 (mr + mg) + mb) / 3) / mb)"
proof (cases "concat (border_area img) = []")
  case True
  then have "mean_red img = NaN"
    unfolding mean_red_def by (simp only: list.map np_mean_uint8_Nil)
  then have "red_correction img = NaN"
    by (simp add: red_correction_def fdiv_NaN_right)
  with assms(1) show ?thesis by simp
next
  case False
  then obtain mr mg mb where means:
    "mean_red img = Fin mr" "mean_green img = Fin mg" "mean_blue img = Fin mb"
    by (simp add: mean_red_def mean_green_def mean_blue_def np_mean_uint8_cases)
  have gray: "mean_gray img = Fin (rnd64 (rnd64 (rnd64 (mr + mg) + mb) / 3))"
    by (simp add: mean_gray_def means)
  have "mr \<noteq> 0 \<and> gr = rnd64 (rnd64 (rnd64 (rnd64 (mr + mg) + mb) / 3) / mr)"
    using assms(1) by (simp add: red_correction_def gray means split: if_splits)
  moreover have "mg \<noteq> 0 \<and> gg = rnd64 (rnd64 (rnd64 (rnd64 (mr + mg) + mb) / 3) / mg)"
    using assms(2) by (simp add: green_correction_def gray means split: if_splits)
  moreover have "mb \<noteq> 0 \<and> gb = rnd64 (rnd64 (rnd64 (rnd64 (mr + mg) + mb) / 3) / mb)"
    using assms(3) by (simp add: blue_correction_def gray means split: if_splits)
  ultimately show ?thesis using that means by blast
qed

lemma samples_scale_all: "samples (scale_all c img) = map (scale_sample c) (samples img)"
  by (simp add: scale_all_def samples_def map_concat comp_def red_def green_def blue_def)

text \<open>
  The factor \<open>f\<close> computed from a mean brightness \<open>mb\<close> that is within \<open>2 ^ -40\<close> of the
  exact mean \<open>S / M\<close>: the factor times the sum is \<open>128 * M\<close> up to that error.
\<close>

lemma factor_sum_bounds:
  fixes S M mb f :: rat
  assumes M: "0 < M" and S: "0 < S"
    and mb: "\<bar>mb - S / M\<bar> \<le> (S / M) / 2 ^ 40" and f: "f = rnd64 (128 / mb)"
  shows "0 \<le> f"
    and "S * f \<le> (1 + u64) / (1 - 1 / 2 ^ 40) * (128 * M)"
    and "(1 - u64) / (1 + 1 / 2 ^ 40) * (128 * M) \<le> S * f"
proof -
  have u: "0 < 1 - u64" "0 < 1 + u64" using u64_pos by simp_all
  have sm: "0 < S / M" using M S by simp
  have m1: "(1 - 1 / 2 ^ 40) * (S / M) \<le> mb" and m2: "mb \<le> (1 + 1 / 2 ^ 40) * (S / M)"
    using mb by (simp_all add: abs_le_iff algebra_simps)
  have mpos: "0 < mb"
  proof -
    have "0 < (1 - 1 / 2 ^ 40) * (S / M)" using sm by (intro mult_pos_pos) simp_all
    with m1 show ?thesis by simp
  qed
  have fm: "0 \<le> 128 / mb" using mpos by simp
  have f1: "(1 - u64) * (128 / mb) \<le> f" and f2: "f \<le> (1 + u64) * (128 / mb)"
    unfolding f using rnd64_rel[OF fm] by simp_all
  show "0 \<le> f" unfolding f by (rule rnd64_nonneg[OF fm])
  have a: "S / mb \<le> M / (1 - 1 / 2 ^ 40)"
  proof -
    have "(1 - 1 / 2 ^ 40) * (S / M) * M \<le> mb * M" using m1 M by (intro mult_right_mono) auto
    then have "(1 - 1 / 2 ^ 40) * S \<le> mb * M" using M by simp
    then show ?thesis using mpos by (simp add: field_simps)
  qed
  have b: "M / (1 + 1 / 2 ^ 40) \<le> S / mb"
  proof -
    have "mb * M \<le> (1 + 1 / 2 ^ 40) * (S / M) * M" using m2 M by (intro mult_right_mono) auto
    then have "mb * M \<le> (1 + 1 / 2 ^ 40) * S" using M by simp
    then show ?thesis using mpos by (simp add: field_simps)
  qed
  show "S * f \<le> (1 + u64) / (1 - 1 / 2 ^ 40) * (128 * M)"
  proof -
    have "S * f \<le> S * ((1 + u64) * (128 / mb))" using f2 S by (intro mult_left_mono) auto
    also have "\<dots> = ((1 + u64) * 128) * (S / mb)" by simp
    also have "\<dots> \<le> ((1 + u64) * 128) * (M / (1 - 1 / 2 ^ 40))"
      using a u(2) by (intro mult_left_mono) auto
    also have "\<dots> = (1 + u64) / (1 - 1 / 2 ^ 40) * (128 * M)" by simp
    finally show ?thesis .
  qed
  show "(1 - u64) / (1 + 1 / 2 ^ 40) * (128 * M) \<le> S * f"
  proof -
    have "(1 - u64) / (1 + 1 / 2 ^ 40) * (128 * M) = ((1 - u64) * 128) * (M / (1 + 1 / 2 ^ 40))"
      by simp
    also have "\<dots> \<le> ((1 - u64) * 128) * (S / mb)"
      using b u(1) by (intro mult_left_mono) auto
    also have "\<dots> = S * ((1 - u64) * (128 / mb))" by simp
    also have "\<dots> \<le> S * f" using f1 S by (intro mult_left_mono) auto
    finally show ?thesis .
  qed
qed

text \<open>An integer sum between the two bounds lies between \<open>127 * M\<close> and \<open>128 * M\<close>.\<close>

lemma sum_between_127_128:
  fixes K M :: nat
  assumes M: "M \<le> 2 ^ 32"
    and hi: "of_nat K \<le> (1 + u64) * ((1 + u64) / (1 - 1 / 2 ^ 40) * (128 * of_nat M))"
    and lo: "(1 - u64) * ((1 - u64) / (1 + 1 / 2 ^ 40) * (128 * of_nat M)) - of_nat M \<le> of_nat K"
  shows "127 * M \<le> K" and "K \<le> 128 * M"
proof -
  define a :: rat where "a = (1 + u64) * ((1 + u64) / (1 - 1 / 2 ^ 40)) - 1"
  define b :: rat where "b = 1 - (1 - u64) * ((1 - u64) / (1 + 1 / 2 ^ 40))"
  have a: "0 \<le> a" "a * 2 ^ 39 < 1" by (simp_all add: a_def u64_def)
  have b: "0 \<le> b" "b * 2 ^ 39 < 1" by (simp_all add: b_def u64_def)
  have "(of_nat M :: rat) \<le> of_nat (2 ^ 32)" using M by (simp only: of_nat_le_iff)
  then have "(128 :: rat) * of_nat M \<le> 128 * 2 ^ 32" by simp
  then have m: "(128 :: rat) * of_nat M \<le> 2 ^ 39" by simp
  have "of_nat K \<le> 128 * of_nat M + a * (128 * of_nat M)"
    using hi by (simp add: a_def algebra_simps)
  also have "a * (128 * of_nat M) \<le> a * 2 ^ 39" using m a(1) by (rule mult_left_mono)
  finally have "(of_nat K :: rat) < 128 * of_nat M + 1" using a(2) by simp
  then have "(of_nat K :: rat) < of_nat (128 * M + 1)" by simp
  then have "K < 128 * M + 1" by (simp only: of_nat_less_iff)
  then show "K \<le> 128 * M" by simp
  have "127 * of_nat M - b * (128 * of_nat M) \<le> of_nat K"
    using lo by (simp add: b_def algebra_simps)
  moreover have "b * (128 * of_nat M) \<le> b * 2 ^ 39" using m b(1) by (rule mult_left_mono)
  ultimately have "(127 * of_nat M :: rat) < of_nat K + 1" using b(2) by linarith
  then have "(of_nat (127 * M) :: rat) < of_nat (K + 1)" by simp
  then have "127 * M < K + 1" by (simp only: of_nat_less_iff)
  then show "127 * M \<le> K" by simp
qed

lemma rnd64_8_5: "rnd64 (8 / 5) = 3602879701896397 / 2251799813685248"
  by code_simp

lemma dim_image_factor:
  "mean_brightness seq_add_reduce dim_image = Fin 80"
  "adjustment_factor seq_add_reduce dim_image = Fin (3602879701896397 / 2251799813685248)"
  by (simp_all add: adjustment_factor_def target_brightness_def mean_brightness_def
      np_mean_float64_def gray_def seq_add_reduce_def dim_image_def np_mean_uint8_def
      red_def green_def blue_def rnd64_8_5)

lemma dim_image_products:
  "rnd64 (50 * (3602879701896397 / 2251799813685248)) < 256"
  "rnd64 (100 * (3602879701896397 / 2251799813685248)) < 256"
  "rnd64 (150 * (3602879701896397 / 2251799813685248)) < 256"
  "rnd64 (30 * (3602879701896397 / 2251799813685248)) < 256"
  "rnd64 (60 * (3602879701896397 / 2251799813685248)) < 256"
  "rnd64 (90 * (3602879701896397 / 2251799813685248)) < 256"
  by code_simp+

lemma round_half_even_ge_floor: "\<lfloor>m\<rfloor> \<le> round_half_even m"
  by (simp add: round_half_even_def Let_def)

text \<open>Rounding does not go below an integer that the argument reaches.\<close>

lemma rnd64_ge_int:
  assumes q: "of_int q \<le> x" "0 \<le> q" and x: "x < 2 ^ 53"
  shows "of_int q \<le> rnd64 x"
proof (cases "x = 0")
  case True
  with q show ?thesis by simp
next
  case False
  from q have x0: "0 \<le> x" by (metis of_int_0_le_iff order_trans)
  with False have xpos: "0 < x" by simp
  define e where "e = exponent \<bar>x\<bar>"
  have "2 powi e \<le> x" using exponent_le[of "\<bar>x\<bar>"] xpos by (simp add: e_def)
  also have "x < 2 powi 53" using x by simp
  finally have lt: "(2::rat) powi e < 2 powi 53" .
  have "e < 53"
  proof (rule ccontr)
    assume "\<not> e < 53"
    then have "(2::rat) powi 53 \<le> 2 powi e" by (intro power_int_increasing) auto
    with lt show False by simp
  qed
  then have "0 \<le> 52 - e" by simp
  then obtain k :: nat where k: "52 - e = int k" using nonneg_int_cases by blast
  define s :: rat where "s = 2 powi (52 - e)"
  have s: "s = of_int (2 ^ k)" "0 < s" by (simp_all add: s_def k)
  have r: "rnd64 x = of_int (round_half_even (x * s)) / s"
    using False by (simp add: rnd64_def e_def s_def Let_def)
  have "of_int (q * 2 ^ k) = of_int q * s" by (simp add: s(1))
  also have "\<dots> \<le> x * s" using q(1) s(2) by (intro mult_right_mono) auto
  finally have "q * 2 ^ k \<le> \<lfloor>x * s\<rfloor>" by (simp only: le_floor_iff)
  also have "\<dots> \<le> round_half_even (x * s)" by (rule round_half_even_ge_floor)
  finally have "(of_int (q * 2 ^ k) :: rat) \<le> of_int (round_half_even (x * s))"
    by (simp only: of_int_le_iff)
  then have "of_int (q * 2 ^ k) / s \<le> of_int (round_half_even (x * s)) / s"
    using s(2) by (simp add: divide_right_mono)
  moreover have "of_int (q * 2 ^ k) / s = (of_int q :: rat)" using s by simp
  ultimately show ?thesis by (simp add: r)
qed

lemma rnd64_1_20: "rnd64 (1 / 20) = 3602879701896397 / 72057594037927936"
  by code_simp

text \<open>
  The border height that the float64 product yields is the integer quotient by 20, for
  every height below \<open>2 ^ 47\<close>: the border is empty exactly for fewer than 20 rows.
\<close>

lemma border_height_div:
  assumes "h < 2 ^ 47"
  shows "border_height h = h div 20"
proof -
  define q where "q = h div 20"
  define x :: rat where "x = of_nat h * (3602879701896397 / 72057594037927936)"
  have hq: "20 * q \<le> h" "h < 20 * q + 20" by (simp_all add: q_def)
  have h1: "(of_nat (20 * q) :: rat) \<le> of_nat h" using hq(1) by (simp only: of_nat_le_iff)
  have "h \<le> 20 * q + 19" using hq(2) by simp
  then have h2: "(of_nat h :: rat) \<le> of_nat (20 * q + 19)"
    by (simp only: of_nat_le_iff)
  have q47: "(of_nat q :: rat) < 2 ^ 47"
  proof -
    have "q < 2 ^ 47" using assms by (simp add: q_def)
    then have "(of_nat q :: rat) < of_nat (2 ^ 47)" by (simp only: of_nat_less_iff)
    then show ?thesis by simp
  qed
  have q0: "(0::rat) \<le> of_nat q" by (rule of_nat_0_le_iff)
  have x0: "0 \<le> x" by (simp add: x_def)
  have lo: "of_nat q \<le> x" using h1 by (simp add: x_def)
  have hi: "(1 + u64) * x < of_nat q + 1" using h2 q47 q0 by (simp add: x_def u64_def)
  have x53: "x < 2 ^ 53"
  proof -
    have "x \<le> (1 + u64) * x" using x0 u64_pos by (simp add: algebra_simps)
    then have "x < of_nat q + 1" using hi by (rule le_less_trans)
    also have "\<dots> < 2 ^ 47 + 1" using q47 by simp
    also have "\<dots> \<le> (2 ^ 53 :: rat)" by simp
    finally show ?thesis .
  qed
  have "of_int (int q) \<le> rnd64 x" using lo by (intro rnd64_ge_int[OF _ _ x53]) simp_all
  moreover have "rnd64 x < of_int (int q) + 1" using rnd64_rel(2)[OF x0] hi by simp
  moreover have "0 \<le> rnd64 x" by (rule rnd64_nonneg[OF x0])
  ultimately have "trunc (rnd64 x) = int q" by (simp add: trunc_def floor_unique)
  then show ?thesis by (simp add: border_height_def rnd64_1_20 x_def q_def)
qed

text \<open>The store of a clipped value is the clamped value: it saturates and never wraps.\<close>

lemma to_uint8_clip_clamped: "clamped v (to_uint8 (clip v))"
proof (cases v)
  case (Fin y)
  define w :: rat where "w = min 255 (max 0 y)"
  have w: "0 \<le> w" "w \<le> 255" by (simp_all add: w_def)
  then have f: "0 \<le> \<lfloor>w\<rfloor>" "\<lfloor>w\<rfloor> \<le> 255" by (simp_all add: floor_le_iff le_floor_iff)
  have "uint (word_of_int \<lfloor>w\<rfloor> :: uint8) = \<lfloor>w\<rfloor>"
    using f by (simp add: uint_word_of_int take_bit_int_eq_self)
  then show ?thesis using w by (simp add: clamped_def Fin trunc_def w_def)
next
  case PInf
  then show ?thesis by (simp add: clamped_def trunc_def)
next
  case NInf
  then show ?thesis by (simp add: clamped_def trunc_def)
next
  case NaN
  then show ?thesis by (simp add: clamped_def)
qed

lemma scale_sample_clamped: "clamped (fmul (of_uint8 s) c) (scale_sample c s)"
  unfolding scale_sample_def by (rule to_uint8_clip_clamped)

lemma clamped_saturates:
  assumes "clamped (Fin y) s"
  shows "255 \<le> y \<Longrightarrow> s = 255" and "y \<le> 0 \<Longrightarrow> s = 0"
proof -
  assume "255 \<le> y"
  then have "uint s = 255" using assms by (simp add: clamped_def)
  then have "uint s = uint (255 :: uint8)" by simp
  then show "s = 255" by (rule word_uint_eqI)
next
  assume "y \<le> 0"
  then have "uint s = 0" using assms by (simp add: clamped_def max_def)
  then have "uint s = uint (0 :: uint8)" by simp
  then show "s = 0" by (rule word_uint_eqI)
qed

lemma clamped_triples:
  assumes "\<And>p. clamped (f1 p) (g1 p) \<and> clamped (f2 p) (g2 p) \<and> clamped (f3 p) (g3 p)"
  shows "list_all2 clamped (concat (map (\<lambda>p. [f1 p, f2 p, f3 p]) ps))
     (concat (map (\<lambda>p. [g1 p, g2 p, g3 p]) ps))"
  using assms by (induction ps) simp_all

lemma balance_clamped:
  assumes "auto_balance_color img = Inr out"
  shows "list_all2 clamped (balance_unclipped img) (samples out)"
proof -
  have "samples out = concat (map (\<lambda>p. [scale_sample (red_correction img) (red p),
      scale_sample (green_correction img) (green p),
      scale_sample (blue_correction img) (blue p)]) (concat img))"
    using assms unfolding auto_balance_color_eq by (auto simp: samples_map)
  then show ?thesis
    unfolding balance_unclipped_def by (simp only: clamped_triples scale_sample_clamped)
qed

lemma exposure_clamped:
  assumes "auto_adjust_exposure add_reduce img = Inr out"
  shows "list_all2 clamped (exposure_unclipped add_reduce img) (samples out)"
proof -
  have "samples out = map (scale_sample (adjustment_factor add_reduce img)) (samples img)"
    using assms by (auto simp: auto_adjust_exposure_def samples_scale_all)
  then show ?thesis
    by (simp add: exposure_unclipped_def list_all2_map1 list_all2_map2 list_all2_same
        scale_sample_clamped)
qed

lemma enhance_clamped:
  "list_all2 clamped (formula_values formula factor img) (samples (enhance formula factor img))"
proof -
  have aux: "list_all2 clamped (concat (map (\<lambda>(r, g, b). [r, g, b]) ps))
      (concat (map (\<lambda>p. [red p, green p, blue p])
         (map (\<lambda>(r, g, b). (to_uint8 (clip r), to_uint8 (clip g), to_uint8 (clip b))) ps)))" for ps
    by (induction ps) (auto simp: red_def green_def blue_def to_uint8_clip_clamped)
  have c: "concat (map (map h) X) = map h (concat X)"
    for h :: "float64 \<times> float64 \<times> float64 \<Rightarrow> pixel" and X
    by (simp add: map_concat)
  show ?thesis
    unfolding formula_values_def enhance_def samples_def c by (rule aux)
qed

section \<open>The claims\<close>

text \<open>
  C1, as stated, fails: on the all-black buffer \<open>black_image\<close> neither stage raises
  DegenerateChannelError. The three gains are NaN (0 / 0), the exposure factor is
  +Inf (128 / 0), and both stages return a buffer.
\<close>

theorem all_black_counterexample:
  "auto_balance_color black_image \<noteq> Inl DegenerateChannelError \<and>
   auto_adjust_exposure seq_add_reduce black_image \<noteq> Inl DegenerateChannelError \<and>
   red_correction black_image = NaN \<and> green_correction black_image = NaN \<and>
   blue_correction black_image = NaN \<and> adjustment_factor seq_add_reduce black_image = PInf"
  using black_corrections[OF black_image_black]
    NaN_balanced[OF black_corrections[OF black_image_black]]
    black_adjusted[of black_image seq_add_reduce, OF black_image_black seq_add_reduce_zeros]
    black_factor[of black_image seq_add_reduce, OF black_image_black seq_add_reduce_zeros]
  by (simp add: black_image_def)

text \<open>
  C1, amended. For an all-black buffer neither the colour balancer nor the exposure
  normaliser raises. The balancer's gains are all NaN; the normaliser's factor is +Inf
  (NaN for a buffer without pixels); every product is NaN, and each stage returns a
  buffer of the input's shape whose samples are all the uint8 cast of NaN. The sum of
  zeros that NumPy's add-reduction computes is taken to be zero.
\<close>

theorem all_black_no_error:
  assumes "list_all (\<lambda>p. p = (0, 0, 0)) (concat img)"
    and "add_reduce (replicate (length (concat img)) (Fin 0)) = Fin 0"
  shows "red_correction img = NaN \<and> green_correction img = NaN \<and> blue_correction img = NaN \<and>
     auto_balance_color img =
       Inr (map (map (\<lambda>p. (cast_undefined, cast_undefined, cast_undefined))) img) \<and>
     adjustment_factor add_reduce img = (if concat img = [] then NaN else PInf) \<and>
     auto_adjust_exposure add_reduce img =
       Inr (map (map (\<lambda>p. (cast_undefined, cast_undefined, cast_undefined))) img)"
  using black_corrections[OF assms(1)] NaN_balanced[OF black_corrections[OF assms(1)]]
    black_factor[of img add_reduce, OF assms] black_adjusted[of img add_reduce, OF assms]
  by simp

theorem all_black_no_error_witness:
  "list_all (\<lambda>p. p = (0, 0, 0)) (concat black_image) \<and>
   seq_add_reduce (replicate (length (concat black_image)) (Fin 0)) = Fin 0 \<and>
   red_correction black_image = NaN \<and> green_correction black_image = NaN \<and>
   blue_correction black_image = NaN \<and>
   auto_balance_color black_image =
     Inr (replicate 20 [(cast_undefined, cast_undefined, cast_undefined)]) \<and>
   adjustment_factor seq_add_reduce black_image = PInf \<and>
   auto_adjust_exposure seq_add_reduce black_image =
     Inr (replicate 20 [(cast_undefined, cast_undefined, cast_undefined)])"
  using all_black_no_error[of black_image seq_add_reduce, OF black_image_black seq_add_reduce_zeros] black_image_black
    seq_add_reduce_zeros[of "length (concat black_image)"]
  by (simp add: black_image_def)

text \<open>
  C2, as stated, fails: \<open>short_image\<close> has 19 rows, its border has no row,
  and the balancer returns a buffer instead of raising InvalidInputError.
\<close>

theorem empty_border_counterexample:
  "border_height (length short_image) = 0 \<and>
   auto_balance_color short_image \<noteq> Inl InvalidInputError \<and>
   auto_balance_color short_image =
     Inr (replicate 19 [(cast_undefined, cast_undefined, cast_undefined)])"
  using NaN_balanced[OF empty_border_corrections[OF short_image_border]] short_image_border
  by (simp add: short_image_def)

text \<open>
  C2, amended. For every buffer whose border has no row (fewer than 20 rows, by
  \<open>border_height_div\<close>), the balancer raises nothing:
  the three means over the empty border are NaN, so are the three gains, and the
  balancer returns a buffer of the input's shape whose samples are all the uint8 cast
  of NaN.
\<close>

theorem empty_border_no_error:
  assumes "border_height (length img) = 0"
  shows "mean_red img = NaN \<and> mean_green img = NaN \<and> mean_blue img = NaN \<and>
     red_correction img = NaN \<and> green_correction img = NaN \<and> blue_correction img = NaN \<and>
     auto_balance_color img =
       Inr (map (map (\<lambda>p. (cast_undefined, cast_undefined, cast_undefined))) img)"
  using empty_border_means[OF assms] empty_border_corrections[OF assms]
    NaN_balanced[OF empty_border_corrections[OF assms]]
  by simp

theorem empty_border_no_error_witness:
  "border_height (length short_image) = 0 \<and>
   mean_red short_image = NaN \<and> mean_green short_image = NaN \<and> mean_blue short_image = NaN \<and>
   red_correction short_image = NaN \<and> green_correction short_image = NaN \<and>
   blue_correction short_image = NaN \<and>
   auto_balance_color short_image =
     Inr (replicate 19 [(cast_undefined, cast_undefined, cast_undefined)])"
  using empty_border_no_error[OF short_image_border] short_image_border
  by (simp add: short_image_def)

text \<open>
  C3. After each of the four stages every sample of the output buffer lies in 0..255,
  for every input buffer, and it does so by clamping: each stored sample is the value
  computed before the store, restricted to [0, 255], so a value that overflows becomes
  255 (\<open>clamped_saturates\<close>) and none is wrapped. The inverter's \<open>255 - s\<close> never
  leaves the range. For the enhancer this holds for whatever formulas the library uses.
\<close>

theorem range_invariant:
  "map uint (samples (inverted_image img)) = map (\<lambda>s. 255 - uint s) (samples img) \<and>
   list_all (\<lambda>s. 0 \<le> uint s \<and> uint s \<le> 255) (samples (inverted_image img)) \<and>
   (\<forall>out. auto_balance_color img = Inr out \<longrightarrow>
      list_all2 clamped (balance_unclipped img) (samples out) \<and>
      list_all (\<lambda>s. 0 \<le> uint s \<and> uint s \<le> 255) (samples out)) \<and>
   (\<forall>out. auto_adjust_exposure add_reduce img = Inr out \<longrightarrow>
      list_all2 clamped (exposure_unclipped add_reduce img) (samples out) \<and>
      list_all (\<lambda>s. 0 \<le> uint s \<and> uint s \<le> 255) (samples out)) \<and>
   list_all2 clamped
     (formula_values sf (rnd64 (3 / 2)) (enhance cf (rnd64 (13 / 10)) (enhance bf (rnd64 (6 / 5)) img)))
     (samples (auto_enhance_image bf cf sf img)) \<and>
   list_all (\<lambda>s. 0 \<le> uint s \<and> uint s \<le> 255) (samples (auto_enhance_image bf cf sf img))"
proof -
  have inv: "map uint (samples (inverted_image img)) = map (\<lambda>s. 255 - uint s) (samples img)"
  proof -
    have "uint (255 - s) = 255 - uint s" for s :: uint8
    proof -
      have "unat s < 2 ^ 8" using unsigned_less[of s, where ?'a = nat] by simp
      then have "int (255 - unat s) = 255 - int (unat s)" by simp
      then show ?thesis by (simp only: uint_nat unat_255_minus)
    qed
    then show ?thesis
      unfolding inverted_image_def samples_map
      by (simp add: samples_def map_concat comp_def)
  qed
  have rng: "list_all (\<lambda>s. 0 \<le> uint s \<and> uint s \<le> 255) xs" for xs :: "uint8 list"
    by (simp add: list_all_iff uint8_range)
  have enh: "list_all2 clamped
     (formula_values sf (rnd64 (3 / 2)) (enhance cf (rnd64 (13 / 10)) (enhance bf (rnd64 (6 / 5)) img)))
     (samples (auto_enhance_image bf cf sf img))"
    unfolding auto_enhance_image_def Let_def by (rule enhance_clamped)
  show ?thesis
    using inv rng enh balance_clamped exposure_clamped by blast
qed

theorem range_invariant_witness:
  "auto_balance_color leak_image =
     Inr ([(255, 128, 128), (2, 128, 128), (0, 128, 128), (0, 128, 128)] #
          replicate 19 (replicate 4 (0, 0, 0))) \<and>
   hd (balance_unclipped leak_image) = Fin 510 \<and>
   list_all2 clamped (balance_unclipped leak_image)
     (samples ([(255, 128, 128), (2, 128, 128), (0, 128, 128), (0, 128, 128)] #
          replicate 19 (replicate 4 (0, 0, 0)))) \<and>
   auto_adjust_exposure seq_add_reduce spot_image = Inr spot_image \<and>
   hd (exposure_unclipped seq_add_reduce spot_image) = Fin 512 \<and>
   list_all2 clamped (exposure_unclipped seq_add_reduce spot_image) (samples spot_image) \<and>
   auto_enhance_image scaling_formula scaling_formula scaling_formula [[(250, 10, 0)]] =
     [[(255, 21, 0)]] \<and>
   list_all2 clamped
     (formula_values scaling_formula (rnd64 (3 / 2))
        (enhance scaling_formula (rnd64 (13 / 10))
           (enhance scaling_formula (rnd64 (6 / 5)) [[(250, 10, 0)]])))
     (samples (auto_enhance_image scaling_formula scaling_formula scaling_formula [[(250, 10, 0)]]))"
proof -
  have b: "hd (balance_unclipped leak_image) = Fin 510"
    by (simp add: balance_unclipped_def leak_image_def leak_image_corrections[unfolded leak_image_def]
        of_uint8_def red_def)
  have e: "hd (exposure_unclipped seq_add_reduce spot_image) = Fin 512"
    by (simp add: exposure_unclipped_def spot_image_factor)
       (simp add: samples_def spot_image_def red_def of_uint8_def spot_product)
  have h: "auto_enhance_image scaling_formula scaling_formula scaling_formula [[(250, 10, 0)]] =
     [[(255, 21, 0)]]"
    by code_simp
  from range_invariant[of leak_image seq_add_reduce scaling_formula scaling_formula scaling_formula]
    range_invariant[of spot_image seq_add_reduce scaling_formula scaling_formula scaling_formula]
    range_invariant[of "[[(250, 10, 0)]]" seq_add_reduce scaling_formula scaling_formula
      scaling_formula]
    leak_image_balanced spot_image_adjusted b e h
  show ?thesis by blast
qed

text \<open>
  C4. The inverter maps every sample \<open>s\<close> to \<open>255 - s\<close> (no wrap-around in uint8), and
  inverting twice gives back the buffer exactly.
\<close>

theorem inverter_involution:
  "inverted_image (inverted_image B) = B \<and>
   map unat (samples (inverted_image B)) = map (\<lambda>s. 255 - unat s) (samples B)"
proof
  show "inverted_image (inverted_image B) = B"
    by (simp add: inverted_image_def red_def green_def blue_def comp_def)
  show "map unat (samples (inverted_image B)) = map (\<lambda>s. 255 - unat s) (samples B)"
    unfolding inverted_image_def samples_map
    by (simp add: samples_def map_concat comp_def unat_255_minus)
qed

text \<open>
  C5, as stated, fails: \<open>spot_image\<close> has mean brightness 63.75, so the factor is
  about 2.008; the white pixel is clamped at 255, the black pixels stay 0, and the
  mean brightness after the normaliser is still 63.75.
\<close>

theorem exposure_target_counterexample:
  "mean_brightness seq_add_reduce spot_image = Fin (255 / 4) \<and>
   auto_adjust_exposure seq_add_reduce spot_image = Inr spot_image \<and>
   brightness spot_image = 255 / 4 \<and>
   \<not> \<bar>(255 / 4 :: rat) - 128\<bar> \<le> 1"
  by (simp add: spot_image_factor spot_image_adjusted)
     (simp add: brightness_def samples_def spot_image_def red_def green_def blue_def)

text \<open>
  C5, amended. Let the buffer have positive mean brightness, let the float64 mean
  brightness that NumPy computes be within \<open>2 ^ -40\<close> (relative) of the exact mean, let
  no sample be clamped when it is scaled, and let the buffer have at most \<open>2 ^ 32\<close>
  samples. Then the mean brightness after the exposure normaliser lies between 127 and
  128: the normaliser cuts off the fraction of every sample.
\<close>

theorem exposure_mean_within_one:
  assumes mb: "mean_brightness add_reduce img = Fin mb"
    and pos: "0 < brightness img"
    and acc: "\<bar>mb - brightness img\<bar> \<le> brightness img / 2 ^ 40"
    and fac: "adjustment_factor add_reduce img = Fin f"
    and noclamp: "\<forall>s \<in> set (samples img). rnd64 (of_nat (unat s) * f) < 256"
    and size: "length (samples img) \<le> 2 ^ 32"
  shows "\<exists>out. auto_adjust_exposure add_reduce img = Inr out \<and>
     127 \<le> brightness out \<and> brightness out \<le> 128"
proof -
  define S where "S = sum_list (map unat (samples img))"
  define M where "M = length (samples img)"
  define out where "out = scale_all (Fin f) img"
  define K where "K = sum_list (map (\<lambda>x. unat (scale_sample (Fin f) x)) (samples img))"
  have br: "brightness img = of_nat S / of_nat M" by (simp add: brightness_def S_def M_def)
  have M: "0 < M"
  proof (rule ccontr)
    assume "\<not> 0 < M"
    then have "brightness img = 0" by (simp add: br)
    with pos show False by simp
  qed
  have S: "0 < S"
  proof (rule ccontr)
    assume "\<not> 0 < S"
    then have "brightness img = 0" by (simp add: br)
    with pos show False by simp
  qed
  have Mr: "(0::rat) < of_nat M" and Sr: "(0::rat) < of_nat S" using M S by simp_all
  have mb0: "mb \<noteq> 0"
  proof
    assume "mb = 0"
    with acc have "brightness img \<le> brightness img / 2 ^ 40" by simp
    with pos show False by (simp add: field_simps)
  qed
  have f: "f = rnd64 (128 / mb)"
    using fac mb0 by (simp add: adjustment_factor_def target_brightness_def mb)
  note fs = factor_sum_bounds[OF Mr Sr acc[unfolded br] f]
  have u: "0 \<le> 1 - u64" "0 \<le> 1 + u64" using u64_pos by simp_all
  note ss = scaled_sum_bounds[OF fs(1) noclamp, folded K_def S_def M_def]
  have hi: "of_nat K \<le> (1 + u64) * ((1 + u64) / (1 - 1 / 2 ^ 40) * (128 * of_nat M))"
  proof -
    have "of_nat K \<le> (1 + u64) * (of_nat S * f)" by (rule ss(1))
    also have "\<dots> \<le> (1 + u64) * ((1 + u64) / (1 - 1 / 2 ^ 40) * (128 * of_nat M))"
      using fs(2) u(2) by (rule mult_left_mono)
    finally show ?thesis .
  qed
  have lo: "(1 - u64) * ((1 - u64) / (1 + 1 / 2 ^ 40) * (128 * of_nat M)) - of_nat M \<le> of_nat K"
  proof -
    have "(1 - u64) * ((1 - u64) / (1 + 1 / 2 ^ 40) * (128 * of_nat M)) - of_nat M
        \<le> (1 - u64) * (of_nat S * f) - of_nat M"
      using mult_left_mono[OF fs(3) u(1)] by simp
    also have "\<dots> \<le> of_nat K" by (rule ss(2))
    finally show ?thesis .
  qed
  note k = sum_between_127_128[OF size[folded M_def] hi lo]
  have bo: "brightness out = of_nat K / of_nat M"
    by (simp add: brightness_def out_def samples_scale_all K_def M_def comp_def)
  have "(of_nat (127 * M) :: rat) \<le> of_nat K" using k(1) by (simp only: of_nat_le_iff)
  then have 1: "127 \<le> brightness out" using Mr by (simp add: bo field_simps)
  have "(of_nat K :: rat) \<le> of_nat (128 * M)" using k(2) by (simp only: of_nat_le_iff)
  then have 2: "brightness out \<le> 128" using Mr by (simp add: bo field_simps)
  have "auto_adjust_exposure add_reduce img = Inr out"
    by (simp add: auto_adjust_exposure_def fac out_def)
  with 1 2 show ?thesis by blast
qed

theorem exposure_mean_within_one_witness:
  "mean_brightness seq_add_reduce dim_image = Fin 80 \<and>
   brightness dim_image = 80 \<and> (0::rat) < 80 \<and> \<bar>(80::rat) - 80\<bar> \<le> 80 / 2 ^ 40 \<and>
   adjustment_factor seq_add_reduce dim_image = Fin (3602879701896397 / 2251799813685248) \<and>
   list_all (\<lambda>s. rnd64 (of_nat (unat s) * (3602879701896397 / 2251799813685248)) < 256)
     (samples dim_image) \<and>
   length (samples dim_image) \<le> 2 ^ 32 \<and>
   (\<exists>out. auto_adjust_exposure seq_add_reduce dim_image = Inr out \<and>
     127 \<le> brightness out \<and> brightness out \<le> 128)"
proof -
  have s: "samples dim_image = [50, 100, 150, 30, 60, 90]"
    by (simp add: samples_def dim_image_def red_def green_def blue_def)
  have br: "brightness dim_image = 80" by (simp add: brightness_def s)
  have nc: "list_all (\<lambda>s. rnd64 (of_nat (unat s) * (3602879701896397 / 2251799813685248)) < 256)
     (samples dim_image)"
    unfolding s using dim_image_products by simp
  then have nc': "\<forall>s \<in> set (samples dim_image).
      rnd64 (of_nat (unat s) * (3602879701896397 / 2251799813685248)) < 256"
    by (simp only: list_all_iff)
  have sz: "length (samples dim_image) \<le> 2 ^ 32" by (simp add: s)
  have pos: "0 < brightness dim_image" by (simp add: br)
  have acc: "\<bar>(80::rat) - brightness dim_image\<bar> \<le> brightness dim_image / 2 ^ 40"
    by (simp add: br)
  from exposure_mean_within_one[OF dim_image_factor(1) pos acc dim_image_factor(2) nc' sz]
    dim_image_factor br nc sz
  show ?thesis by simp
qed

text \<open>
  C6, as stated, fails: in \<open>leak_image\<close> the red gain is 2 and the red sample 255 of
  the border is clamped, so after balancing the border's red mean is 257/4 while its
  green and blue means are 128.
\<close>

theorem neutrality_counterexample:
  "auto_balance_color leak_image =
     Inr ([(255, 128, 128), (2, 128, 128), (0, 128, 128), (0, 128, 128)] #
          replicate 19 (replicate 4 (0, 0, 0))) \<and>
   channel_mean red (border_area ([(255, 128, 128), (2, 128, 128), (0, 128, 128), (0, 128, 128)] #
          replicate 19 (replicate 4 (0, 0, 0)))) = 257 / 4 \<and>
   channel_mean green (border_area ([(255, 128, 128), (2, 128, 128), (0, 128, 128), (0, 128, 128)] #
          replicate 19 (replicate 4 (0, 0, 0)))) = 128 \<and>
   \<not> \<bar>(257 / 4 :: rat) - 128\<bar> \<le> 1"
  by (simp add: leak_image_balanced channel_mean_def border_area_def border_height_20
      red_def green_def)

text \<open>
  C6, amended. When the three gains are finite (the border has pixels and none of its
  channel means is zero), no sample of the border is clamped when it is scaled, and the
  border has at most \<open>2 ^ 42\<close> pixels, the means of the three channels over the border
  of the balanced buffer differ by at most 1 from each other.
\<close>

theorem border_neutral_within_one:
  assumes gains: "red_correction img = Fin gr" "green_correction img = Fin gg"
      "blue_correction img = Fin gb"
    and noclamp: "\<forall>p \<in> set (concat (border_area img)).
        rnd64 (of_nat (unat (red p)) * gr) < 256 \<and>
        rnd64 (of_nat (unat (green p)) * gg) < 256 \<and>
        rnd64 (of_nat (unat (blue p)) * gb) < 256"
    and size: "length (concat (border_area img)) \<le> 2 ^ 42"
  shows "\<exists>out. auto_balance_color img = Inr out \<and>
     \<bar>channel_mean red (border_area out) - channel_mean green (border_area out)\<bar> \<le> 1 \<and>
     \<bar>channel_mean green (border_area out) - channel_mean blue (border_area out)\<bar> \<le> 1 \<and>
     \<bar>channel_mean red (border_area out) - channel_mean blue (border_area out)\<bar> \<le> 1"
proof -
  define B where "B = concat (border_area img)"
  define n where "n = length B"
  define out where "out = map (map (\<lambda>p. (scale_sample (Fin gr) (red p),
      scale_sample (Fin gg) (green p), scale_sample (Fin gb) (blue p)))) img"
  define Kr where "Kr = sum_list (map (\<lambda>x. unat (scale_sample (Fin gr) x)) (map red B))"
  define Kg where "Kg = sum_list (map (\<lambda>x. unat (scale_sample (Fin gg) x)) (map green B))"
  define Kb where "Kb = sum_list (map (\<lambda>x. unat (scale_sample (Fin gb) x)) (map blue B))"
  from finite_corrections[OF gains] obtain mr mg mb where
    means: "mean_red img = Fin mr" "mean_green img = Fin mg" "mean_blue img = Fin mb"
    and nz: "mr \<noteq> 0" "mg \<noteq> 0" "mb \<noteq> 0"
    and g: "gr = rnd64 (rnd64 (rnd64 (rnd64 (mr + mg) + mb) / 3) / mr)"
      "gg = rnd64 (rnd64 (rnd64 (rnd64 (mr + mg) + mb) / 3) / mg)"
      "gb = rnd64 (rnd64 (rnd64 (rnd64 (mr + mg) + mb) / 3) / mb)"
    by blast
  define G where "G = rnd64 (rnd64 (rnd64 (mr + mg) + mb) / 3)"
  have mm: "np_mean_uint8 (map red B) = Fin mr" "np_mean_uint8 (map green B) = Fin mg"
    "np_mean_uint8 (map blue B) = Fin mb"
    using means by (simp_all add: mean_red_def mean_green_def mean_blue_def B_def)
  have G: "0 \<le> G" "G \<le> 256"
    unfolding G_def
    using gray_range[OF np_mean_uint8_range[OF mm(1)] np_mean_uint8_range[OF mm(2)]
        np_mean_uint8_range[OF mm(3)]] by simp_all
  have ne: "B \<noteq> []" using mm(1) by (auto simp: np_mean_uint8_cases split: if_splits)
  then have n: "0 < n" "n \<le> 2 ^ 42" using size by (simp_all add: n_def B_def)
  have ncr: "\<forall>x \<in> set (map red B). rnd64 (of_nat (unat x) * gr) < 256"
    and ncg: "\<forall>x \<in> set (map green B). rnd64 (of_nat (unat x) * gg) < 256"
    and ncb: "\<forall>x \<in> set (map blue B). rnd64 (of_nat (unat x) * gb) < 256"
    using noclamp by (auto simp: B_def simp del: set_concat)
  note r = channel_sum_bounds[OF mm(1) nz(1) G(1) g(1)[folded G_def] ncr, folded Kr_def,
      unfolded length_map, folded n_def]
  note gn = channel_sum_bounds[OF mm(2) nz(2) G(1) g(2)[folded G_def] ncg, folded Kg_def,
      unfolded length_map, folded n_def]
  note b = channel_sum_bounds[OF mm(3) nz(3) G(1) g(3)[folded G_def] ncb, folded Kb_def,
      unfolded length_map, folded n_def]
  have rg: "\<bar>of_nat Kr / of_nat n - of_nat Kg / of_nat n\<bar> \<le> (1::rat)"
    using means_within_one[OF n G r(1) gn(2)] means_within_one[OF n G gn(1) r(2)] by linarith
  have gb: "\<bar>of_nat Kg / of_nat n - of_nat Kb / of_nat n\<bar> \<le> (1::rat)"
    using means_within_one[OF n G gn(1) b(2)] means_within_one[OF n G b(1) gn(2)] by linarith
  have rb: "\<bar>of_nat Kr / of_nat n - of_nat Kb / of_nat n\<bar> \<le> (1::rat)"
    using means_within_one[OF n G r(1) b(2)] means_within_one[OF n G b(1) r(2)] by linarith
  have bo: "concat (border_area out) = map (\<lambda>p. (scale_sample (Fin gr) (red p),
      scale_sample (Fin gg) (green p), scale_sample (Fin gb) (blue p))) B"
    by (simp add: out_def border_area_map B_def map_concat)
  have cm: "channel_mean red (border_area out) = of_nat Kr / of_nat n"
    "channel_mean green (border_area out) = of_nat Kg / of_nat n"
    "channel_mean blue (border_area out) = of_nat Kb / of_nat n"
    by (simp_all add: channel_mean_def bo Kr_def Kg_def Kb_def n_def comp_def
        red_def green_def blue_def)
  have "auto_balance_color img = Inr out"
    by (simp add: auto_balance_color_eq gains out_def)
  then show ?thesis using rg gb rb by (simp add: cm)
qed

theorem border_neutral_within_one_witness:
  "red_correction cast_image = Fin 2 \<and> green_correction cast_image = Fin (1 / 2) \<and>
   blue_correction cast_image = Fin 2 \<and>
   concat (border_area cast_image) = [(1, 4, 1)] \<and>
   rnd64 (of_nat (unat (1 :: uint8)) * 2) < 256 \<and>
   rnd64 (of_nat (unat (4 :: uint8)) * (1 / 2)) < 256 \<and>
   length (concat (border_area cast_image)) \<le> 2 ^ 42 \<and>
   (\<exists>out. auto_balance_color cast_image = Inr out \<and>
     \<bar>channel_mean red (border_area out) - channel_mean green (border_area out)\<bar> \<le> 1 \<and>
     \<bar>channel_mean green (border_area out) - channel_mean blue (border_area out)\<bar> \<le> 1 \<and>
     \<bar>channel_mean red (border_area out) - channel_mean blue (border_area out)\<bar> \<le> 1)"
proof -
  have b: "concat (border_area cast_image) = [(1, 4, 1)]"
    by (simp add: border_area_def cast_image_def border_height_20)
  have v: "rnd64 (of_nat (unat (1 :: uint8)) * 2) < 256"
    "rnd64 (of_nat (unat (4 :: uint8)) * (1 / 2)) < 256"
    by simp_all
  have nc: "\<forall>p \<in> set (concat (border_area cast_image)).
      rnd64 (of_nat (unat (red p)) * 2) < 256 \<and>
      rnd64 (of_nat (unat (green p)) * (1 / 2)) < 256 \<and>
      rnd64 (of_nat (unat (blue p)) * 2) < 256"
    unfolding b by (simp add: red_def green_def blue_def)
  have sz: "length (concat (border_area cast_image)) \<le> 2 ^ 42"
    unfolding b by simp
  from border_neutral_within_one[OF cast_image_corrections nc sz] cast_image_corrections b v sz
  show ?thesis by blast
qed

text \<open>
  C7, as stated, fails: in \<open>cast_image\<close> the green gain is exactly 1/2, so the green
  sample 3 scales to exactly 1.5, whose nearest integer is 2; the balancer stores 1.
\<close>

theorem truncation_counterexample:
  "green_correction cast_image = Fin (1 / 2) \<and>
   auto_balance_color cast_image = Inr ([(2, 2, 2)] # replicate 19 [(0, 1, 0)]) \<and>
   round_half_even (3 * (1 / 2)) = 2 \<and> round (3 * (1 / 2) :: rat) = 2"
proof -
  have "round_half_even (3 * (1 / 2)) = 2" by code_simp
  moreover have "round (3 * (1 / 2) :: rat) = 2" by (simp add: round_def)
  ultimately show ?thesis
    by (simp add: cast_image_corrections cast_image_balanced)
qed

text \<open>
  C7, amended. With finite gains the balancer multiplies every sample of a channel by
  that channel's gain (a float64 product), clamps the product to [0, 255] and stores
  the integer part of it: the fraction is cut off, not rounded to nearest.
\<close>

theorem balancer_truncates:
  assumes "red_correction img = Fin gr" "green_correction img = Fin gg" "blue_correction img = Fin gb"
  shows "\<exists>out. auto_balance_color img = Inr out \<and> map length out = map length img \<and>
     (\<forall>i j. i < length img \<longrightarrow> j < length (img ! i) \<longrightarrow>
        uint (red (out ! i ! j)) = \<lfloor>min 255 (max 0 (rnd64 (of_nat (unat (red (img ! i ! j))) * gr)))\<rfloor> \<and>
        uint (green (out ! i ! j)) = \<lfloor>min 255 (max 0 (rnd64 (of_nat (unat (green (img ! i ! j))) * gg)))\<rfloor> \<and>
        uint (blue (out ! i ! j)) = \<lfloor>min 255 (max 0 (rnd64 (of_nat (unat (blue (img ! i ! j))) * gb)))\<rfloor>)"
  unfolding auto_balance_color_eq assms
  by (simp add: scale_sample_Fin comp_def red_def green_def blue_def)

theorem balancer_truncates_witness:
  "red_correction cast_image = Fin 2 \<and> green_correction cast_image = Fin (1 / 2) \<and>
   blue_correction cast_image = Fin 2 \<and>
   (\<exists>out. auto_balance_color cast_image = Inr out \<and> map length out = map length cast_image \<and>
     (\<forall>i j. i < length cast_image \<longrightarrow> j < length (cast_image ! i) \<longrightarrow>
        uint (red (out ! i ! j)) = \<lfloor>min 255 (max 0 (rnd64 (of_nat (unat (red (cast_image ! i ! j))) * 2)))\<rfloor> \<and>
        uint (green (out ! i ! j)) = \<lfloor>min 255 (max 0 (rnd64 (of_nat (unat (green (cast_image ! i ! j))) * (1 / 2))))\<rfloor> \<and>
        uint (blue (out ! i ! j)) = \<lfloor>min 255 (max 0 (rnd64 (of_nat (unat (blue (cast_image ! i ! j))) * 2)))\<rfloor>))"
  by (intro conjI cast_image_corrections balancer_truncates[OF cast_image_corrections])

text \<open>
  C8, as stated, fails in its last part: the batch ends with the same fixed dialog
  whether a file failed or not, so its terminal result does not count anything.
\<close>

theorem batch_summary_counterexample:
  "last (dialogs (batch_process_images every_file fails_on_bad [''a'', ''bad''])) = Information \<and>
   last (dialogs (batch_process_images every_file fails_on_bad [''a'', ''b''])) = Information \<and>
   failed every_file fails_on_bad [''a'', ''bad''] = 1 \<and>
   failed every_file fails_on_bad [''a'', ''b''] = 0 \<and>
   succeeded every_file fails_on_bad [''a'', ''bad''] = 1 \<and>
   succeeded every_file fails_on_bad [''a'', ''b''] = 2"
  by (simp add: batch_process_images_def failed_def succeeded_def every_file_def fails_on_bad_def)

text \<open>
  C8, amended. An error while processing one file is caught at that file: a warning
  naming the file and the exception is shown, and the loop goes on. So the warnings are
  exactly those of the failing files, in order, every other file is saved, and their
  numbers are the numbers of failed and succeeded files. The batch ends with one fixed
  information dialog, which carries no count.
\<close>

theorem batch_continues_on_error:
  "dialogs (batch_process_images isfile body listing) =
     concat (map (\<lambda>f. case body f of Inl e \<Rightarrow> [Warning f e] | Inr u \<Rightarrow> [])
       (filter isfile listing)) @ [Information] \<and>
   saved (batch_process_images isfile body listing) =
     filter (\<lambda>f. \<not> isl (body f)) (filter isfile listing) \<and>
   length (dialogs (batch_process_images isfile body listing)) = failed isfile body listing + 1 \<and>
   length (saved (batch_process_images isfile body listing)) = succeeded isfile body listing"
proof -
  have "length (concat (map (\<lambda>f. case body f of Inl e \<Rightarrow> [Warning f e] | Inr u \<Rightarrow> []) fs)) =
      length (filter (\<lambda>f. isl (body f)) fs)" for fs
    by (induction fs) (auto split: sum.splits)
  then show ?thesis
    by (simp add: batch_process_images_def Let_def batch_loop_dialogs batch_loop_saved
        failed_def succeeded_def conj_commute)
qed

theorem batch_continues_on_error_witness:
  "dialogs (batch_process_images every_file fails_on_bad [''a'', ''bad'', ''c'']) =
     [Warning ''bad'' (OtherException ''unreadable''), Information] \<and>
   saved (batch_process_images every_file fails_on_bad [''a'', ''bad'', ''c'']) = [''a'', ''c''] \<and>
   failed every_file fails_on_bad [''a'', ''bad'', ''c''] = 1 \<and>
   succeeded every_file fails_on_bad [''a'', ''bad'', ''c''] = 2"
  using batch_continues_on_error[of every_file fails_on_bad "[''a'', ''bad'', ''c'']"]
  by (simp add: every_file_def fails_on_bad_def failed_def succeeded_def)

text \<open>
  C9. Each of the three stages, run on the array at address \<open>a\<close> of a store, returns a
  new address, and the store it leaves holds the same array at \<open>a\<close> (and at every
  other address that was allocated before the call).
\<close>

theorem stages_keep_input:
  assumes "a < length s"
  shows "(\<exists>b s'. inverted_image_st a s = (b, s') \<and> b \<noteq> a \<and> s' ! a = s ! a \<and>
            take (length s) s' = s \<and> s' ! b = inverted_image (s ! a)) \<and>
         (\<exists>b s'. auto_balance_color_st a s = Inr (b, s') \<and> b \<noteq> a \<and> s' ! a = s ! a \<and>
            take (length s) s' = s \<and> auto_balance_color (s ! a) = Inr (s' ! b)) \<and>
         (\<exists>b s'. auto_adjust_exposure_st add_reduce a s = Inr (b, s') \<and> b \<noteq> a \<and> s' ! a = s ! a \<and>
            take (length s) s' = s \<and> auto_adjust_exposure add_reduce (s ! a) = Inr (s' ! b))"
  using assms
  by (simp add: inverted_image_st_def auto_balance_color_st_def auto_adjust_exposure_st_def
      alloc_def Let_def auto_balance_color_def auto_adjust_exposure_def nth_append)

theorem stages_keep_input_witness:
  "(0::nat) < length [cast_image] \<and>
   (\<exists>b s'. inverted_image_st 0 [cast_image] = (b, s') \<and> b \<noteq> 0 \<and> s' ! 0 = cast_image \<and>
      take (length [cast_image]) s' = [cast_image] \<and> s' ! b = inverted_image cast_image) \<and>
   (\<exists>b s'. auto_balance_color_st 0 [cast_image] = Inr (b, s') \<and> b \<noteq> 0 \<and> s' ! 0 = cast_image \<and>
      take (length [cast_image]) s' = [cast_image] \<and> auto_balance_color cast_image = Inr (s' ! b)) \<and>
   (\<exists>b s'. auto_adjust_exposure_st seq_add_reduce 0 [cast_image] = Inr (b, s') \<and> b \<noteq> 0 \<and>
      s' ! 0 = cast_image \<and> take (length [cast_image]) s' = [cast_image] \<and>
      auto_adjust_exposure seq_add_reduce cast_image = Inr (s' ! b))"
  using stages_keep_input[of 0 "[cast_image]" seq_add_reduce] by simp

text \<open>
  C10, as stated, fails: the border of \<open>neutral_image\<close> has one row and the three
  channel means are equal (the float64 nearest to 7/5), but \<open>(m + m + m) / 3\<close> rounds
  to the float64 just below \<open>m\<close>; each gain is \<open>1 - 2^-53\<close>, and every nonzero sample
  comes out one lower.
\<close>

theorem neutral_border_counterexample:
  "border_height (length neutral_image) = 1 \<and>
   mean_red neutral_image = Fin (3152519739159347 / 2251799813685248) \<and>
   mean_green neutral_image = mean_red neutral_image \<and>
   mean_blue neutral_image = mean_red neutral_image \<and>
   red_correction neutral_image = Fin (9007199254740991 / 9007199254740992) \<and>
   green_correction neutral_image = Fin (9007199254740991 / 9007199254740992) \<and>
   blue_correction neutral_image = Fin (9007199254740991 / 9007199254740992) \<and>
   auto_balance_color neutral_image =
     Inr ([(0, 0, 0), (0, 0, 0), (0, 0, 0), (1, 1, 1), (1, 1, 1)] #
          replicate 19 (replicate 5 (127, 127, 127))) \<and>
   auto_balance_color neutral_image \<noteq> Inr neutral_image"
proof -
  have b: "auto_balance_color neutral_image =
     Inr ([(0, 0, 0), (0, 0, 0), (0, 0, 0), (1, 1, 1), (1, 1, 1)] #
          replicate 19 (replicate 5 (127, 127, 127)))"
    by (simp add: auto_balance_color_eq neutral_image_corrections)
       (simp add: neutral_image_def red_def green_def blue_def scale_sample_below_one)
  have h: "border_height (length neutral_image) = 1"
    by (simp add: neutral_image_def border_height_20)
  show ?thesis
    unfolding b by (simp add: h neutral_image_means neutral_image_corrections)
      (simp add: neutral_image_def)
qed

text \<open>
  C10, amended. When the three border means are one nonzero value \<open>m\<close> and the float64
  evaluation of \<open>(m + m + m) / 3\<close> gives \<open>m\<close> back (as it does for every integer mean,
  \<open>mean_gray_of_nat\<close>), all three gains are 1.0 and the balancer returns the input
  buffer sample for sample.
\<close>

theorem neutral_border_identity:
  assumes "mean_red img = Fin m" "mean_green img = Fin m" "mean_blue img = Fin m"
    and "m \<noteq> 0" and "mean_gray img = Fin m"
  shows "red_correction img = Fin 1 \<and> green_correction img = Fin 1 \<and>
     blue_correction img = Fin 1 \<and> auto_balance_color img = Inr img"
proof -
  have c: "red_correction img = Fin 1" "green_correction img = Fin 1" "blue_correction img = Fin 1"
    using assms by (simp_all add: red_correction_def green_correction_def blue_correction_def)
  have "map (map (\<lambda>p. (red p, green p, blue p))) img = img"
    by (simp add: red_def green_def blue_def)
  then show ?thesis
    by (simp add: auto_balance_color_eq c)
qed

theorem neutral_border_identity_witness:
  "mean_red gray_image = Fin 100 \<and> mean_green gray_image = Fin 100 \<and>
   mean_blue gray_image = Fin 100 \<and> (100::rat) \<noteq> 0 \<and> mean_gray gray_image = Fin 100 \<and>
   red_correction gray_image = Fin 1 \<and> green_correction gray_image = Fin 1 \<and>
   blue_correction gray_image = Fin 1 \<and> auto_balance_color gray_image = Inr gray_image"
proof -
  have g: "mean_gray gray_image = Fin (of_nat 100)"
    by (rule mean_gray_of_nat[OF gray_image_means]) simp
  have m: "mean_red gray_image = Fin 100" "mean_green gray_image = Fin 100"
    "mean_blue gray_image = Fin 100" "mean_gray gray_image = Fin 100"
    using gray_image_means g by simp_all
  have "(100::rat) \<noteq> 0" by simp
  from neutral_border_identity[OF m(1-3) this m(4)] m show ?thesis by simp
qed

end
